theory Spec2Isabelle
  imports Main
begin

section \<open>Data model of the signaling server (server.js)\<close>

text \<open>
  A connection handle stands for one \<open>ws\<close> object handed to the \<open>connection\<close> callback.
  Handles are allocated from a counter, so every connection gets a handle of its own.
\<close>

type_synonym handle = nat

text \<open>
  \<open>ws.readyState\<close>. A server-side socket is handed over open, so \<open>CONNECTING\<close> does not
  occur; the code compares with \<open>WebSocket.OPEN\<close> only.
\<close>

datatype ready_state = OPEN | CLOSING | CLOSED

text \<open>
  Every field of a message is a parsed JSON value; a field that is missing reads as
  \<open>undefined\<close> and is \<open>None\<close> in the record of the message. Numbers are represented by
  integers: they are only compared, with zero and with each other.
\<close>

datatype json =
    JNull
  | JBool bool
  | JNum int
  | JStr string
  | JArr "json list"
  | JObj "(string \<times> json) list"

text \<open>The truthiness test of the language, as in \<open>!room\<close>, \<open>!id\<close>, \<open>!offer\<close>.\<close>

fun truthy :: "json \<Rightarrow> bool" where
  "truthy JNull = False"
| "truthy (JBool b) = b"
| "truthy (JNum n) = (n \<noteq> 0)"
| "truthy (JStr s) = (s \<noteq> [])"
| "truthy (JArr xs) = True"
| "truthy (JObj kvs) = True"

text \<open>
  The conversion to a string that a template literal makes. It throws a \<open>TypeError\<close> for
  a parsed object with an own property \<open>toString\<close> (the property is not callable, and
  the inherited \<open>valueOf\<close> returns the object), and for an array that holds such a value
  (\<open>Array.prototype.join\<close> converts the elements). \<open>printable v\<close> says that it does
  not throw.
\<close>

fun printable :: "json \<Rightarrow> bool" where
  "printable (JObj kvs) = (''toString'' \<notin> set (map fst kvs))"
| "printable (JArr xs) = (\<forall>x\<in>set xs. printable x)"
| "printable v = True"

fun printable_field :: "json option \<Rightarrow> bool" where
  "printable_field None = True"
| "printable_field (Some v) = printable v"

text \<open>
  Room names and participant ids are keys of a \<open>Map\<close> and are compared with \<open>!==\<close>:
  null, booleans, numbers and strings by value, objects and arrays by identity. A key is
  either a primitive value or a reference to an object of the given content. Every parsed
  message holds new objects; the state keeps a counter from which handleJoin takes the
  identities of the objects it uses as keys (lemma \<open>keys_fresh\<close> below: the keys of a
  reachable state are older than the counter).
\<close>

datatype jskey = Prim json | Ref nat json

fun key_json :: "jskey \<Rightarrow> json" where
  "key_json (Prim v) = v"
| "key_json (Ref n v) = v"

fun is_primitive :: "json \<Rightarrow> bool" where
  "is_primitive (JArr xs) = False"
| "is_primitive (JObj kvs) = False"
| "is_primitive v = True"

definition as_key :: "nat \<Rightarrow> json \<Rightarrow> jskey" where
  "as_key n v = (if is_primitive v then Prim v else Ref n v)"

definition truthy_key :: "jskey \<Rightarrow> bool" where
  "truthy_key k = truthy (key_json k)"

text \<open>The closure variables hold a key or \<open>null\<close> (\<open>None\<close>), which is falsy.\<close>

fun truthy_opt :: "jskey option \<Rightarrow> bool" where
  "truthy_opt None = False"
| "truthy_opt (Some k) = truthy_key k"

text \<open>The parsed inbound message; the handlers destructure these fields from it.\<close>

record message =
  m_type :: "json option"
  m_room :: "json option"
  m_id :: "json option"
  m_offer :: "json option"
  m_answer :: "json option"
  m_candidate :: "json option"
  m_targetId :: "json option"

text \<open>
  What the \<open>message\<close> callback receives: text for which \<open>JSON.parse\<close> (or the read of
  \<open>message.type\<close>, when the text is \<open>null\<close>) throws, or a parsed message. Parsed text
  that is not an object has no field at all.
\<close>

datatype inbound = Unparseable | Parsed message

text \<open>
  The objects the server passes to \<open>JSON.stringify\<close> and sends. Keys are sent as their
  content; \<open>from\<close> is the value of \<open>clientId\<close>.
\<close>

datatype server_msg =
    ErrorMsg string
  | Joined json json nat
  | PeerJoined json bool
  | OfferMsg json "json option"
  | AnswerMsg json "json option"
  | IceCandidateMsg json "json option"
  | PeerLeft json

text \<open>
  Calls the server makes on a connection: \<open>ws.send\<close>, \<open>ws.ping\<close>, \<open>ws.terminate\<close>.
  Console output is not modelled, except that the conversion of a value to a string in a
  logged template literal may throw.
\<close>

datatype action = Send handle server_msg | Ping handle | Terminate handle

text \<open>The three closure variables of one connection.\<close>

record session =
  currentRoom :: "jskey option"
  clientId :: "jskey option"
  isAuthenticated :: bool

definition no_session :: session where
  "no_session = \<lparr>currentRoom = None, clientId = None, isAuthenticated = False\<rparr>"

subsection \<open>Insertion-ordered maps\<close>

text \<open>
  A \<open>Map\<close> iterates in insertion order; \<open>set\<close> on an existing key keeps its place and
  \<open>set\<close> on a new key appends.
\<close>

type_synonym ('k, 'v) jsmap = "('k \<times> 'v) list"

definition map_has :: "'k \<Rightarrow> ('k, 'v) jsmap \<Rightarrow> bool" where
  "map_has k m = (k \<in> set (map fst m))"

fun map_set :: "'k \<Rightarrow> 'v \<Rightarrow> ('k, 'v) jsmap \<Rightarrow> ('k, 'v) jsmap" where
  "map_set k v [] = [(k, v)]"
| "map_set k v (p # ps) = (if fst p = k then (k, v) # ps else p # map_set k v ps)"

definition map_delete :: "'k \<Rightarrow> ('k, 'v) jsmap \<Rightarrow> ('k, 'v) jsmap" where
  "map_delete k m = filter (\<lambda>p. fst p \<noteq> k) m"

type_synonym participants = "(jskey, handle) jsmap"

text \<open>
  The server's state: the global \<open>rooms\<close> map, the closure variables of every connection,
  what the transport keeps per socket (\<open>readyState\<close>, \<open>isAlive\<close>, membership in
  \<open>wss.clients\<close>), and the counters for new sockets and for new key objects.
\<close>

record world =
  rooms :: "(jskey, participants) jsmap"
  sessions :: "handle \<Rightarrow> session"
  readyState :: "handle \<Rightarrow> ready_state"
  isAlive :: "handle \<Rightarrow> bool"
  clients :: "handle list"
  nextHandle :: handle
  nextRef :: nat

definition init_world :: world where
  "init_world = \<lparr>rooms = [], sessions = (\<lambda>h. no_session), readyState = (\<lambda>h. CLOSED),
     isAlive = (\<lambda>h. False), clients = [], nextHandle = 0, nextRef = 0\<rparr>"

section \<open>The handlers\<close>

text \<open>
  The handlers are closures of one connection; here they take the connection's handle
  and the state and return the new state with the calls made, in order. A \<open>ws.send\<close>
  that the code guards with \<open>readyState === WebSocket.OPEN\<close> appears only when the guard
  holds; an unguarded \<open>ws.send\<close> always appears (on a server-side socket it does not throw).
\<close>

definition getRoomSize :: "world \<Rightarrow> jskey \<Rightarrow> nat" where
  "getRoomSize w roomName = (case map_of (rooms w) roomName of None \<Rightarrow> 0 | Some ps \<Rightarrow> length ps)"

definition broadcastToRoom :: "world \<Rightarrow> jskey \<Rightarrow> server_msg \<Rightarrow> jskey option \<Rightarrow> action list" where
  "broadcastToRoom w roomName msg excludeId =
     (case map_of (rooms w) roomName of
        None \<Rightarrow> []
      | Some ps \<Rightarrow>
          map (\<lambda>p. Send (snd p) msg)
            (filter (\<lambda>p. Some (fst p) \<noteq> excludeId \<and> readyState w (snd p) = OPEN) ps))"

definition sendToClient :: "world \<Rightarrow> jskey \<Rightarrow> jskey \<Rightarrow> server_msg \<Rightarrow> action list" where
  "sendToClient w roomName cid msg =
     (case map_of (rooms w) roomName of
        None \<Rightarrow> []
      | Some ps \<Rightarrow>
          (case map_of ps cid of
             None \<Rightarrow> []
           | Some ws \<Rightarrow> if readyState w ws = OPEN then [Send ws msg] else []))"

definition clear_session :: "handle \<Rightarrow> world \<Rightarrow> world" where
  "clear_session h w = w\<lparr>sessions := (sessions w)(h := no_session)\<rparr>"

text \<open>
  The log lines of handleLeave, handleOffer and handleAnswer, and those of the \<open>message\<close>,
  \<open>close\<close> and \<open>error\<close> callbacks, print \<open>clientId\<close> and \<open>currentRoom\<close>. These are
  \<open>null\<close> or values that handleJoin printed (line 186 or 191) before it stored them
  (lines 194 and 195), so these lines do not throw; lemma \<open>sessions_printable\<close> below
  states it for every reachable state.
\<close>

definition handleLeave :: "handle \<Rightarrow> world \<Rightarrow> world \<times> action list" where
  "handleLeave h w =
     (case (currentRoom (sessions w h), clientId (sessions w h)) of
        (Some r, Some c) \<Rightarrow>
          if \<not> truthy_key r \<or> \<not> truthy_key c then (w, [])
          else
            (case map_of (rooms w) r of
               None \<Rightarrow> (clear_session h w, [])
             | Some ps \<Rightarrow>
                 let out = broadcastToRoom w r (PeerLeft (key_json c)) (Some c);
                     ps' = map_delete c ps;
                     rooms' = (if length ps' = 0 then map_delete r (rooms w)
                               else map_set r ps' (rooms w))
                 in (clear_session h (w\<lparr>rooms := rooms'\<rparr>), out))
      | _ \<Rightarrow> (w, []))"

text \<open>
  handleJoin either returns or throws: the template literals of its log lines convert
  \<open>room\<close> (line 170, after \<open>rooms.set\<close>) and \<open>id\<close> and \<open>room\<close> (line 186, before
  \<open>participants.set\<close> when the id is already registered; line 191, after
  \<open>participants.set\<close> otherwise) to strings. Both outcomes carry the state reached and
  the messages sent so far.
\<close>

datatype completion = Returns world "action list" | Throws world "action list"

definition handleJoin :: "handle \<Rightarrow> message \<Rightarrow> world \<Rightarrow> completion" where
  "handleJoin h m w =
     (case (m_room m, m_id m) of
        (Some rv, Some iv) \<Rightarrow>
          if \<not> truthy rv \<or> \<not> truthy iv
          then Returns w [Send h (ErrorMsg ''Room name and ID are required'')]
          else
            let room = as_key (nextRef w) rv;
                i = as_key (Suc (nextRef w)) iv;
                w0 = (if is_primitive rv \<and> is_primitive iv then w
                      else w\<lparr>nextRef := Suc (Suc (nextRef w))\<rparr>);
                (w1, out1) =
                  (if truthy_opt (currentRoom (sessions w0 h)) \<and> currentRoom (sessions w0 h) \<noteq> Some room
                   then handleLeave h w0 else (w0, []));
                created = (\<not> map_has room (rooms w1));
                rooms1 = (if created then map_set room [] (rooms w1) else rooms w1)
            in if created \<and> \<not> printable rv then Throws (w1\<lparr>rooms := rooms1\<rparr>) out1
               else
                 let ps = (case map_of rooms1 room of None \<Rightarrow> [] | Some ps \<Rightarrow> ps)
                 in if length ps \<ge> 2 \<and> \<not> map_has i ps
                    then Returns (w1\<lparr>rooms := rooms1\<rparr>)
                           (out1 @ [Send h (ErrorMsg ''Room is full. Maximum 2 participants allowed.'')])
                    else
                      let ps' = map_set i h ps;
                          rooms2 = map_set room ps' rooms1
                      in if \<not> printable iv \<or> \<not> printable rv
                         then Throws (w1\<lparr>rooms := (if map_has i ps then rooms1 else rooms2)\<rparr>) out1
                         else
                           let w2 = w1\<lparr>rooms := rooms2,
                                      sessions := (sessions w1)(h :=
                                        \<lparr>currentRoom = Some room, clientId = Some i,
                                           isAuthenticated = True\<rparr>)\<rparr>;
                               out2 = [Send h (Joined (key_json room) (key_json i) (length ps'))];
                               out3 = (if length ps' = 2
                                       then (case find (\<lambda>otherId. otherId \<noteq> i) (map fst ps') of
                                               None \<Rightarrow> []
                                             | Some otherParticipant \<Rightarrow>
                                                 if \<not> truthy_key otherParticipant then []
                                                 else sendToClient w2 room otherParticipant
                                                        (PeerJoined (key_json i) True)
                                                      @ [Send h (PeerJoined (key_json otherParticipant) False)])
                                       else [])
                           in Returns w2 (out1 @ out2 @ out3)
      | _ \<Rightarrow> Returns w [Send h (ErrorMsg ''Room name and ID are required'')])"

definition handleOffer :: "handle \<Rightarrow> message \<Rightarrow> world \<Rightarrow> world \<times> action list" where
  "handleOffer h m w =
     (if \<not> isAuthenticated (sessions w h) \<or> \<not> truthy_opt (currentRoom (sessions w h)) then (w, [])
      else
        (case (m_offer m, currentRoom (sessions w h)) of
           (Some offer, Some r) \<Rightarrow>
             if \<not> truthy offer then (w, [])
             else (w, broadcastToRoom w r
                        (OfferMsg offer (map_option key_json (clientId (sessions w h))))
                        (clientId (sessions w h)))
         | _ \<Rightarrow> (w, [])))"

definition handleAnswer :: "handle \<Rightarrow> message \<Rightarrow> world \<Rightarrow> world \<times> action list" where
  "handleAnswer h m w =
     (if \<not> isAuthenticated (sessions w h) \<or> \<not> truthy_opt (currentRoom (sessions w h)) then (w, [])
      else
        (case (m_answer m, currentRoom (sessions w h)) of
           (Some answer, Some r) \<Rightarrow>
             if \<not> truthy answer then (w, [])
             else (w, broadcastToRoom w r
                        (AnswerMsg answer (map_option key_json (clientId (sessions w h))))
                        (clientId (sessions w h)))
         | _ \<Rightarrow> (w, [])))"

definition handleIceCandidate :: "handle \<Rightarrow> message \<Rightarrow> world \<Rightarrow> world \<times> action list" where
  "handleIceCandidate h m w =
     (if \<not> isAuthenticated (sessions w h) \<or> \<not> truthy_opt (currentRoom (sessions w h)) then (w, [])
      else
        (case (m_candidate m, currentRoom (sessions w h)) of
           (Some candidate, Some r) \<Rightarrow>
             if \<not> truthy candidate then (w, [])
             else (w, broadcastToRoom w r
                        (IceCandidateMsg candidate (map_option key_json (clientId (sessions w h))))
                        (clientId (sessions w h)))
         | _ \<Rightarrow> (w, [])))"

text \<open>
  The \<open>message\<close> callback: parse, log \<open>message.type\<close> (line 105, which throws when the
  type cannot be converted to a string), dispatch on the type with \<open>===\<close>; an unknown
  type is only logged. Whatever is thrown inside the \<open>try\<close> is answered with
  \<open>Invalid message format\<close>, and the state stays as the throw left it.
\<close>

definition invalid_format :: server_msg where
  "invalid_format = ErrorMsg ''Invalid message format''"

fun caught :: "handle \<Rightarrow> completion \<Rightarrow> world \<times> action list" where
  "caught h (Returns w out) = (w, out)"
| "caught h (Throws w out) = (w, out @ [Send h invalid_format])"

definition on_message :: "handle \<Rightarrow> inbound \<Rightarrow> world \<Rightarrow> world \<times> action list" where
  "on_message h data w =
     (case data of
        Unparseable \<Rightarrow> (w, [Send h invalid_format])
      | Parsed m \<Rightarrow>
          if \<not> printable_field (m_type m) then (w, [Send h invalid_format])
          else if m_type m = Some (JStr ''join'') then caught h (handleJoin h m w)
          else if m_type m = Some (JStr ''offer'') then handleOffer h m w
          else if m_type m = Some (JStr ''answer'') then handleAnswer h m w
          else if m_type m = Some (JStr ''ice-candidate'') then handleIceCandidate h m w
          else if m_type m = Some (JStr ''leave'') then handleLeave h w
          else (w, []))"

text \<open>
  The heartbeat callback walks \<open>wss.clients\<close>: a socket whose flag is false is terminated,
  any other has its flag cleared and is pinged.
\<close>

fun heartbeat :: "handle list \<Rightarrow> world \<Rightarrow> world \<times> action list" where
  "heartbeat [] w = (w, [])"
| "heartbeat (ws # rest) w =
     (if \<not> isAlive w ws
      then (let (w', out) = heartbeat rest w in (w', Terminate ws # out))
      else (let (w', out) = heartbeat rest (w\<lparr>isAlive := (isAlive w)(ws := False)\<rparr>)
            in (w', Ping ws # out)))"

subsection \<open>Events\<close>

text \<open>
  The events of the event loop. \<open>EvConnection\<close> is a new socket: the transport adds it to
  \<open>wss.clients\<close> in state \<open>OPEN\<close>, and the callback initialises the closure variables and
  \<open>isAlive\<close>. \<open>EvClose\<close> and \<open>EvError\<close> are the socket's \<open>close\<close> and \<open>error\<close> events;
  at \<open>close\<close> the transport has set the socket to \<open>CLOSED\<close> and dropped it from
  \<open>wss.clients\<close>. \<open>EvReadyState\<close> is any other change of a socket's state by the transport.
\<close>

datatype event =
    EvConnection
  | EvMessage handle inbound
  | EvClose handle
  | EvError handle
  | EvPong handle
  | EvHeartbeat
  | EvReadyState handle ready_state

definition on_connection :: "world \<Rightarrow> world" where
  "on_connection w =
     (let ws = nextHandle w
      in w\<lparr>sessions := (sessions w)(ws := no_session),
           readyState := (readyState w)(ws := OPEN),
           isAlive := (isAlive w)(ws := True),
           clients := clients w @ [ws],
           nextHandle := Suc ws\<rparr>)"

definition transport_closed :: "handle \<Rightarrow> world \<Rightarrow> world" where
  "transport_closed h w =
     w\<lparr>readyState := (readyState w)(h := CLOSED), clients := removeAll h (clients w)\<rparr>"

fun step :: "event \<Rightarrow> world \<Rightarrow> world \<times> action list" where
  "step EvConnection w = (on_connection w, [])"
| "step (EvMessage h data) w = on_message h data w"
| "step (EvClose h) w = handleLeave h (transport_closed h w)"
| "step (EvError h) w = handleLeave h w"
| "step (EvPong h) w = (w\<lparr>isAlive := (isAlive w)(h := True)\<rparr>, [])"
| "step EvHeartbeat w = heartbeat (clients w) w"
| "step (EvReadyState h rs) w = (w\<lparr>readyState := (readyState w)(h := rs)\<rparr>, [])"

fun run :: "event list \<Rightarrow> world \<Rightarrow> world \<times> action list" where
  "run [] w = (w, [])"
| "run (e # es) w =
     (let (w1, out1) = step e w; (w2, out2) = run es w1 in (w2, out1 @ out2))"

definition world_after :: "event list \<Rightarrow> world" where
  "world_after es = fst (run es init_world)"

section \<open>Notions used in the statements\<close>

text \<open>Messages for concrete scenarios: every field missing but the ones given.\<close>

definition blank_message :: message where
  "blank_message = \<lparr>m_type = None, m_room = None, m_id = None, m_offer = None,
     m_answer = None, m_candidate = None, m_targetId = None\<rparr>"

definition join_message :: "string \<Rightarrow> string \<Rightarrow> message" where
  "join_message room i =
     blank_message\<lparr>m_type := Some (JStr ''join''), m_room := Some (JStr room), m_id := Some (JStr i)\<rparr>"

text \<open>The key that a string is.\<close>

definition skey :: "string \<Rightarrow> jskey" where
  "skey s = Prim (JStr s)"

text \<open>
  What every event keeps: room names are distinct and truthy, a room has at most two
  entries, under distinct truthy ids; the closure variables of a connection are all unset,
  or hold a truthy room name and a truthy id that convert to strings, with the flag set.
\<close>

definition room_ok :: "participants \<Rightarrow> bool" where
  "room_ok ps = (distinct (map fst ps) \<and> (\<forall>k\<in>set (map fst ps). truthy_key k) \<and> length ps \<le> 2)"

definition rooms_ok :: "(jskey, participants) jsmap \<Rightarrow> bool" where
  "rooms_ok rs = (distinct (map fst rs) \<and> (\<forall>p\<in>set rs. truthy_key (fst p) \<and> room_ok (snd p)))"

definition session_ok :: "session \<Rightarrow> bool" where
  "session_ok s =
     (case (currentRoom s, clientId s) of
        (None, None) \<Rightarrow> \<not> isAuthenticated s
      | (Some r, Some c) \<Rightarrow>
          truthy_key r \<and> truthy_key c \<and> printable (key_json r) \<and> printable (key_json c)
          \<and> isAuthenticated s
      | _ \<Rightarrow> False)"

definition world_ok :: "world \<Rightarrow> bool" where
  "world_ok w = (rooms_ok (rooms w) \<and> (\<forall>h. session_ok (sessions w h))
     \<and> (\<forall>h\<in>set (clients w). h < nextHandle w))"

text \<open>
  The keys of a state are primitive values or objects whose identity was taken from the
  counter before: the identities that handleJoin takes next are new.
\<close>

fun key_known :: "nat \<Rightarrow> jskey \<Rightarrow> bool" where
  "key_known n (Prim v) = True"
| "key_known n (Ref j v) = (j < n)"

definition keys_known :: "world \<Rightarrow> bool" where
  "keys_known w =
     ((\<forall>p\<in>set (rooms w). key_known (nextRef w) (fst p)
          \<and> (\<forall>q\<in>set (snd p). key_known (nextRef w) (fst q)))
      \<and> (\<forall>h k. currentRoom (sessions w h) = Some k \<or> clientId (sessions w h) = Some k
            \<longrightarrow> key_known (nextRef w) k))"

text \<open>No room of the registry is empty.\<close>

definition no_empty_room :: "world \<Rightarrow> bool" where
  "no_empty_room w = (\<forall>p\<in>set (rooms w). snd p \<noteq> [])"

text \<open>
  An event other than a join message whose \<open>room\<close> or \<open>id\<close> cannot be converted to a
  string.
\<close>

fun printable_join :: "event \<Rightarrow> bool" where
  "printable_join (EvMessage h (Parsed m)) =
     (m_type m \<noteq> Some (JStr ''join'') \<or> (printable_field (m_room m) \<and> printable_field (m_id m)))"
| "printable_join e = True"

text \<open>
  A room under an object key that is in the registry with no participant while no
  connection has it as its current room: handleLeave is never run for it.
\<close>

fun ref_below :: "nat \<Rightarrow> jskey \<Rightarrow> bool" where
  "ref_below n (Prim v) = False"
| "ref_below n (Ref j v) = (j < n)"

definition abandoned :: "jskey \<Rightarrow> world \<Rightarrow> bool" where
  "abandoned k w = (map_of (rooms w) k = Some [] \<and> ref_below (nextRef w) k
                     \<and> (\<forall>h. currentRoom (sessions w h) \<noteq> Some k))"

text \<open>Names for the parts of \<open>handleJoin\<close>, in the order in which it runs them.\<close>

definition leave_first :: "handle \<Rightarrow> jskey \<Rightarrow> world \<Rightarrow> world \<times> action list" where
  "leave_first h room w =
     (if truthy_opt (currentRoom (sessions w h)) \<and> currentRoom (sessions w h) \<noteq> Some room
      then handleLeave h w else (w, []))"

definition keys_taken :: "json \<Rightarrow> json \<Rightarrow> world \<Rightarrow> world" where
  "keys_taken rv iv w =
     (if is_primitive rv \<and> is_primitive iv then w else w\<lparr>nextRef := Suc (Suc (nextRef w))\<rparr>)"

definition room_of :: "world \<Rightarrow> jskey \<Rightarrow> participants" where
  "room_of w room = (case map_of (rooms w) room of None \<Rightarrow> [] | Some ps \<Rightarrow> ps)"

definition join_session :: "jskey \<Rightarrow> jskey \<Rightarrow> session" where
  "join_session room i = \<lparr>currentRoom = Some room, clientId = Some i, isAuthenticated = True\<rparr>"

definition required_error :: server_msg where
  "required_error = ErrorMsg ''Room name and ID are required''"

definition full_error :: server_msg where
  "full_error = ErrorMsg ''Room is full. Maximum 2 participants allowed.''"

definition peer_notices :: "handle \<Rightarrow> world \<Rightarrow> jskey \<Rightarrow> jskey \<Rightarrow> participants \<Rightarrow> action list" where
  "peer_notices h w2 room i ps' =
     (if length ps' = 2
      then (case find (\<lambda>otherId. otherId \<noteq> i) (map fst ps') of
              None \<Rightarrow> []
            | Some otherParticipant \<Rightarrow>
                if \<not> truthy_key otherParticipant then []
                else sendToClient w2 room otherParticipant (PeerJoined (key_json i) True)
                     @ [Send h (PeerJoined (key_json otherParticipant) False)])
      else [])"

text \<open>The worlds the server can be in: those reached from the initial one by some events.\<close>

definition reachable :: "world \<Rightarrow> bool" where
  "reachable w = (\<exists>es. w = world_after es)"

text \<open>
  \<open>join(room, id)\<close>: a join message that carries a room name and an id, both non-empty
  strings.
\<close>

definition is_join :: "message \<Rightarrow> string \<Rightarrow> string \<Rightarrow> bool" where
  "is_join m room i =
     (m_type m = Some (JStr ''join'') \<and> m_room m = Some (JStr room) \<and> m_id m = Some (JStr i)
      \<and> room \<noteq> [] \<and> i \<noteq> [])"

text \<open>
  A connection is in room \<open>r\<close> as participant \<open>a\<close>: its closure variables say so and the
  room's entry for \<open>a\<close> is this connection.
\<close>

definition in_room :: "world \<Rightarrow> handle \<Rightarrow> jskey \<Rightarrow> jskey \<Rightarrow> bool" where
  "in_room w h r a = (sessions w h = join_session r a \<and> map_of (room_of w r) a = Some h)"

text \<open>The three signaling message types, the payload field each requires, and what is relayed.\<close>

definition is_signaling :: "message \<Rightarrow> bool" where
  "is_signaling m =
     (m_type m = Some (JStr ''offer'') \<or> m_type m = Some (JStr ''answer'')
      \<or> m_type m = Some (JStr ''ice-candidate''))"

definition required_payload :: "message \<Rightarrow> json option" where
  "required_payload m =
     (if m_type m = Some (JStr ''offer'') then m_offer m
      else if m_type m = Some (JStr ''answer'') then m_answer m
      else if m_type m = Some (JStr ''ice-candidate'') then m_candidate m
      else None)"

definition relayed :: "message \<Rightarrow> json \<Rightarrow> json option \<Rightarrow> server_msg" where
  "relayed m p sender =
     (if m_type m = Some (JStr ''offer'') then OfferMsg p sender
      else if m_type m = Some (JStr ''answer'') then AnswerMsg p sender
      else IceCandidateMsg p sender)"

definition offer_message :: "json \<Rightarrow> message" where
  "offer_message p = blank_message\<lparr>m_type := Some (JStr ''offer''), m_offer := Some p\<rparr>"

definition leave_message :: message where
  "leave_message = blank_message\<lparr>m_type := Some (JStr ''leave'')\<rparr>"

text \<open>The entries a broadcast reaches: every entry but the excluded id, on an open socket.\<close>

definition others_open :: "world \<Rightarrow> jskey \<Rightarrow> jskey option \<Rightarrow> participants" where
  "others_open w r c =
     filter (\<lambda>e. Some (fst e) \<noteq> c \<and> readyState w (snd e) = OPEN) (room_of w r)"

text \<open>Room \<open>r\<close> holds exactly the two entries \<open>x\<close> and \<open>y\<close>, in either order of arrival.\<close>

definition room_holds :: "world \<Rightarrow> jskey \<Rightarrow> jskey \<times> handle \<Rightarrow> jskey \<times> handle \<Rightarrow> bool" where
  "room_holds w r x y = (fst x \<noteq> fst y \<and> (room_of w r = [x, y] \<or> room_of w r = [y, x]))"

text \<open>The three events of connection \<open>h\<close> that run the leave procedure: a leave message, the socket's close and its error.\<close>

definition leaving_events :: "handle \<Rightarrow> event list" where
  "leaving_events h = [EvMessage h (Parsed leave_message), EvClose h, EvError h]"

text \<open>An action that is not a send on socket \<open>h\<close>.\<close>

definition not_to :: "handle \<Rightarrow> action \<Rightarrow> bool" where
  "not_to h x = (case x of Send ws msg \<Rightarrow> ws \<noteq> h | _ \<Rightarrow> True)"

text \<open>The entries of room \<open>r\<close> that are told when \<open>a\<close> leaves on the close of socket \<open>h\<close>.\<close>

definition peers_to_notify :: "world \<Rightarrow> handle \<Rightarrow> jskey \<Rightarrow> jskey \<Rightarrow> participants" where
  "peers_to_notify w h r a =
     filter (\<lambda>p. fst p \<noteq> a \<and> snd p \<noteq> h \<and> readyState w (snd p) = OPEN) (room_of w r)"

subsection \<open>Scenarios\<close>

text \<open>alice and bob paired in \<open>room1\<close> on connections 0 and 1.\<close>

definition paired_world :: world where
  "paired_world = world_after
     [EvConnection, EvConnection,
      EvMessage 0 (Parsed (join_message ''room1'' ''alice'')),
      EvMessage 1 (Parsed (join_message ''room1'' ''bob''))]"

text \<open>alice alone in \<open>room1\<close> on connection 0; connection 1 is open and has not joined.\<close>

definition alone_world :: world where
  "alone_world = world_after
     [EvConnection, EvConnection,
      EvMessage 0 (Parsed (join_message ''room1'' ''alice''))]"


text \<open>alice and bob paired in \<open>room1\<close>; connection 2 is open and has not joined.\<close>

definition full_world :: world where
  "full_world = world_after
     [EvConnection, EvConnection, EvConnection,
      EvMessage 0 (Parsed (join_message ''room1'' ''alice'')),
      EvMessage 1 (Parsed (join_message ''room1'' ''bob''))]"

text \<open>alice and bob paired in \<open>room1\<close>; connection 2 is in \<open>room2\<close> as zed.\<close>

definition switch_world :: world where
  "switch_world = world_after
     [EvConnection, EvConnection, EvConnection,
      EvMessage 0 (Parsed (join_message ''room1'' ''alice'')),
      EvMessage 1 (Parsed (join_message ''room1'' ''bob'')),
      EvMessage 2 (Parsed (join_message ''room2'' ''zed''))]"

text \<open>alice and bob paired in \<open>room1\<close>, after the transport has put the socket of bob in state \<open>CLOSING\<close>.\<close>

definition closing_peer_world :: world where
  "closing_peer_world = world_after
     [EvConnection, EvConnection,
      EvMessage 0 (Parsed (join_message ''room1'' ''alice'')),
      EvMessage 1 (Parsed (join_message ''room1'' ''bob'')),
      EvReadyState 1 CLOSING]"

text \<open>One connection joins \<open>room1\<close> as alice, joins it again as bob, and stays silent for two heartbeats.\<close>

definition ghost_trace :: "event list" where
  "ghost_trace =
     [EvConnection,
      EvMessage 0 (Parsed (join_message ''room1'' ''alice'')),
      EvMessage 0 (Parsed (join_message ''room1'' ''bob'')),
      EvHeartbeat, EvHeartbeat]"

text \<open>The state after the transport has raised \<open>close\<close> for that terminated connection.\<close>

definition ghost_world :: world where
  "ghost_world = world_after (ghost_trace @ [EvClose 0])"

text \<open>alice and bob paired; the socket of bob goes to \<open>CLOSING\<close>; nobody answers two heartbeats.\<close>

definition unnotified_trace :: "event list" where
  "unnotified_trace =
     [EvConnection, EvConnection,
      EvMessage 0 (Parsed (join_message ''room1'' ''alice'')),
      EvMessage 1 (Parsed (join_message ''room1'' ''bob'')),
      EvReadyState 1 CLOSING,
      EvHeartbeat, EvHeartbeat]"

text \<open>
  A join whose room is an object with an own property \<open>toString\<close>, as in the text
  \<open>{"type":"join","room":{"toString":1},"id":"x"}\<close>.
\<close>

definition unprintable_room_join :: message where
  "unprintable_room_join =
     blank_message\<lparr>m_type := Some (JStr ''join''),
       m_room := Some (JObj [(''toString'', JNum 1)]), m_id := Some (JStr ''x'')\<rparr>"

definition empty_room_trace :: "event list" where
  "empty_room_trace = [EvConnection, EvMessage 0 (Parsed unprintable_room_join)]"

text \<open>The key under which that join stores its room: the first object used as a key.\<close>

definition unprintable_room :: jskey where
  "unprintable_room = Ref 0 (JObj [(''toString'', JNum 1)])"

section \<open>Lemmas on maps, the registry invariant and the handlers\<close>

lemma map_of_map_set: "map_of (map_set k v m) k' = (if k' = k then Some v else map_of m k')"
  by (induction m) auto

lemma map_of_map_delete: "map_of (map_delete k m) k' = (if k' = k then None else map_of m k')"
  by (induction m) (auto simp: map_delete_def)

lemma keys_map_set:
  "map fst (map_set k v m) = (if k \<in> set (map fst m) then map fst m else map fst m @ [k])"
  by (induction m) auto

lemma length_map_set:
  "length (map_set k v m) = (if k \<in> set (map fst m) then length m else Suc (length m))"
  by (induction m) auto

lemma distinct_map_set: "distinct (map fst m) \<Longrightarrow> distinct (map fst (map_set k v m))"
  by (simp add: keys_map_set)

lemma distinct_map_delete: "distinct (map fst m) \<Longrightarrow> distinct (map fst (map_delete k m))"
  by (simp add: map_delete_def distinct_map_filter)

lemma set_map_delete: "set (map_delete k m) = {p \<in> set m. fst p \<noteq> k}"
  by (auto simp: map_delete_def)

lemma in_set_map_set: "p \<in> set (map_set k v m) \<Longrightarrow> p = (k, v) \<or> p \<in> set m"
  by (induction m) (auto split: if_splits)

lemma map_has_iff: "map_has k m \<longleftrightarrow> map_of m k \<noteq> None"
  by (simp add: map_has_def map_of_eq_None_iff)

lemma map_set_map_set: "map_set k v (map_set k v0 m) = map_set k v m"
  by (induction m) auto

lemma key_json_as_key [simp]: "key_json (as_key n v) = v"
  by (simp add: as_key_def)

lemma truthy_as_key [simp]: "truthy_key (as_key n v) = truthy v"
  by (simp add: truthy_key_def)

lemma as_key_string [simp]: "as_key n (JStr s) = skey s"
  by (simp add: as_key_def skey_def)

lemma skey_props [simp]:
  "key_json (skey s) = JStr s" "truthy_key (skey s) = (s \<noteq> [])" "(skey s = skey t) = (s = t)"
  by (simp_all add: skey_def truthy_key_def)

lemma keys_taken_string [simp]: "keys_taken (JStr r) (JStr i) w = w"
  by (simp add: keys_taken_def)

lemma keys_taken_fields [simp]:
  "rooms (keys_taken rv iv w) = rooms w" "sessions (keys_taken rv iv w) = sessions w"
  "readyState (keys_taken rv iv w) = readyState w" "isAlive (keys_taken rv iv w) = isAlive w"
  "clients (keys_taken rv iv w) = clients w" "nextHandle (keys_taken rv iv w) = nextHandle w"
  by (simp_all add: keys_taken_def)

lemma rooms_ok_lookup: "rooms_ok rs \<Longrightarrow> map_of rs r = Some ps \<Longrightarrow> room_ok ps \<and> truthy_key r"
  by (auto simp: rooms_ok_def dest!: map_of_SomeD)

lemma rooms_ok_map_set:
  "rooms_ok rs \<Longrightarrow> truthy_key r \<Longrightarrow> room_ok ps \<Longrightarrow> rooms_ok (map_set r ps rs)"
  unfolding rooms_ok_def by (auto simp: distinct_map_set dest!: in_set_map_set)

lemma rooms_ok_map_delete: "rooms_ok rs \<Longrightarrow> rooms_ok (map_delete r rs)"
  unfolding rooms_ok_def by (auto simp: distinct_map_delete set_map_delete)

lemma room_ok_empty: "room_ok []"
  by (simp add: room_ok_def)

lemma room_ok_delete: "room_ok ps \<Longrightarrow> room_ok (map_delete c ps)"
proof -
  assume ok: "room_ok ps"
  have "length (map_delete c ps) \<le> length ps" by (simp add: map_delete_def)
  then show ?thesis using ok unfolding room_ok_def
    by (auto simp: distinct_map_delete set_map_delete)
qed

lemma room_ok_set:
  "room_ok ps \<Longrightarrow> truthy_key i \<Longrightarrow> length ps < 2 \<or> map_has i ps \<Longrightarrow> room_ok (map_set i h ps)"
  unfolding room_ok_def map_has_def
  by (auto simp: keys_map_set length_map_set)

lemma session_ok_no_session: "session_ok no_session"
  by (simp add: session_ok_def no_session_def)

lemma handleLeave_ok: "world_ok w \<Longrightarrow> world_ok (fst (handleLeave h w))"
  unfolding world_ok_def handleLeave_def clear_session_def
  by (auto simp: Let_def session_ok_no_session rooms_ok_map_delete
           intro!: rooms_ok_map_set room_ok_delete dest: rooms_ok_lookup
           split: option.splits)

lemma handleJoin_falsy:
  "\<not> (\<exists>rv iv. m_room m = Some rv \<and> m_id m = Some iv \<and> truthy rv \<and> truthy iv)
   \<Longrightarrow> handleJoin h m w = Returns w [Send h required_error]"
  by (auto simp: handleJoin_def required_error_def split: option.splits)

lemma handleJoin_unfold:
  assumes f: "m_room m = Some rv" "m_id m = Some iv" "truthy rv" "truthy iv"
      and k: "room = as_key (nextRef w) rv" "i = as_key (Suc (nextRef w)) iv"
      and l: "leave_first h room (keys_taken rv iv w) = (w1, out1)"
  shows "handleJoin h m w =
     (if \<not> map_has room (rooms w1) \<and> \<not> printable rv
      then Throws (w1\<lparr>rooms := map_set room [] (rooms w1)\<rparr>) out1
      else if 2 \<le> length (room_of w1 room) \<and> \<not> map_has i (room_of w1 room)
      then Returns w1 (out1 @ [Send h full_error])
      else if \<not> printable iv \<or> \<not> printable rv
      then Throws (w1\<lparr>rooms := (if map_has i (room_of w1 room) then rooms w1
                else map_set room (map_set i h (room_of w1 room)) (rooms w1))\<rparr>) out1
      else (let ps' = map_set i h (room_of w1 room);
                w2 = w1\<lparr>rooms := map_set room ps' (rooms w1),
                        sessions := (sessions w1)(h := join_session room i)\<rparr>
            in Returns w2 (out1 @ [Send h (Joined rv iv (length ps'))]
                             @ peer_notices h w2 room i ps')))"
proof -
  have l': "(if truthy_opt (currentRoom (sessions (keys_taken rv iv w) h))
               \<and> currentRoom (sessions (keys_taken rv iv w) h) \<noteq> Some room
            then handleLeave h (keys_taken rv iv w) else (keys_taken rv iv w, [])) = (w1, out1)"
    using l by (simp add: leave_first_def)
  show ?thesis
  proof (cases "map_has room (rooms w1)")
    case True
    then obtain ps where ps: "map_of (rooms w1) room = Some ps"
      by (auto simp: map_has_iff)
    show ?thesis
      using f True ps l' unfolding handleJoin_def k [symmetric] keys_taken_def [symmetric]
      by (simp add: Let_def room_of_def join_session_def peer_notices_def full_error_def k)
  next
    case False
    then have none: "map_of (rooms w1) room = None" by (simp add: map_has_iff)
    show ?thesis
      using f False none l' unfolding handleJoin_def k [symmetric] keys_taken_def [symmetric]
      by (simp add: Let_def room_of_def join_session_def peer_notices_def
            map_of_map_set map_set_map_set k map_has_def)
  qed
qed

lemma leave_first_ok: "world_ok w \<Longrightarrow> world_ok (fst (leave_first h room w))"
  by (simp add: leave_first_def handleLeave_ok)

lemma room_of_ok: "rooms_ok (rooms w) \<Longrightarrow> room_ok (room_of w room)"
  by (auto simp: room_of_def room_ok_empty dest: rooms_ok_lookup split: option.splits)

lemma keys_taken_ok: "world_ok w \<Longrightarrow> world_ok (keys_taken rv iv w)"
  by (simp add: world_ok_def)

lemma handleJoin_ok: "world_ok w \<Longrightarrow> world_ok (fst (caught h (handleJoin h m w)))"
proof -
  assume ok: "world_ok w"
  show ?thesis
  proof (cases "\<exists>rv iv. m_room m = Some rv \<and> m_id m = Some iv \<and> truthy rv \<and> truthy iv")
    case False
    then show ?thesis using ok by (simp add: handleJoin_falsy)
  next
    case True
    then obtain rv iv where f: "m_room m = Some rv" "m_id m = Some iv" "truthy rv" "truthy iv"
      by blast
    define room where "room = as_key (nextRef w) rv"
    define i where "i = as_key (Suc (nextRef w)) iv"
    obtain w1 out1 where l: "leave_first h room (keys_taken rv iv w) = (w1, out1)"
      by (cases "leave_first h room (keys_taken rv iv w)")
    have "world_ok (fst (leave_first h room (keys_taken rv iv w)))"
      by (intro leave_first_ok keys_taken_ok ok)
    then have ok1: "world_ok w1" using l by simp
    then have r1: "rooms_ok (rooms w1)" and s1: "\<forall>h'. session_ok (sessions w1 h')"
      and c1: "\<forall>h'\<in>set (clients w1). h' < nextHandle w1"
      by (simp_all add: world_ok_def)
    have tr: "truthy_key room" and ti: "truthy_key i" using f by (simp_all add: room_def i_def)
    have e: "rooms_ok (map_set room [] (rooms w1))"
      using r1 tr by (intro rooms_ok_map_set room_ok_empty)
    have a: "rooms_ok (map_set room (map_set i h (room_of w1 room)) (rooms w1))"
      if "\<not> (2 \<le> length (room_of w1 room) \<and> \<not> map_has i (room_of w1 room))"
    proof -
      from that have "length (room_of w1 room) < 2 \<or> map_has i (room_of w1 room)" by auto
      then have "room_ok (map_set i h (room_of w1 room))"
        using room_of_ok [OF r1, of room] ti by (intro room_ok_set)
      then show ?thesis using r1 tr by (intro rooms_ok_map_set)
    qed
    have s: "session_ok (join_session room i)" if "printable rv" "printable iv"
      using that tr ti by (simp add: session_ok_def join_session_def room_def i_def)
    show ?thesis
      unfolding handleJoin_unfold [OF f room_def i_def l]
      using ok1 e a s s1 c1 by (auto simp: Let_def world_ok_def)
  qed
qed

lemma handleOffer_world: "fst (handleOffer h m w) = w"
  by (simp add: handleOffer_def split: option.splits)

lemma handleAnswer_world: "fst (handleAnswer h m w) = w"
  by (simp add: handleAnswer_def split: option.splits)

lemma handleIceCandidate_world: "fst (handleIceCandidate h m w) = w"
  by (simp add: handleIceCandidate_def split: option.splits)

lemma on_message_ok: "world_ok w \<Longrightarrow> world_ok (fst (on_message h d w))"
  by (cases d)
     (simp_all add: on_message_def handleJoin_ok handleLeave_ok handleOffer_world
        handleAnswer_world handleIceCandidate_world)

lemma heartbeat_keeps:
  "rooms (fst (heartbeat hs w)) = rooms w \<and> sessions (fst (heartbeat hs w)) = sessions w
   \<and> clients (fst (heartbeat hs w)) = clients w \<and> nextHandle (fst (heartbeat hs w)) = nextHandle w
   \<and> readyState (fst (heartbeat hs w)) = readyState w"
  by (induction hs arbitrary: w) (simp_all add: split_beta)

lemma heartbeat_ok: "world_ok w \<Longrightarrow> world_ok (fst (heartbeat hs w))"
  by (simp add: world_ok_def heartbeat_keeps)

lemma on_connection_ok: "world_ok w \<Longrightarrow> world_ok (on_connection w)"
  by (auto simp: world_ok_def on_connection_def Let_def session_ok_no_session less_Suc_eq)

lemma transport_closed_ok: "world_ok w \<Longrightarrow> world_ok (transport_closed h w)"
  by (auto simp: world_ok_def transport_closed_def)

lemma step_ok: "world_ok w \<Longrightarrow> world_ok (fst (step e w))"
  by (cases e)
     (simp_all add: on_connection_ok on_message_ok handleLeave_ok transport_closed_ok heartbeat_ok,
      simp_all add: world_ok_def)

lemma run_ok: "world_ok w \<Longrightarrow> world_ok (fst (run es w))"
  by (induction es arbitrary: w) (simp_all add: split_beta step_ok)

lemma init_world_ok: "world_ok init_world"
  by (simp add: world_ok_def init_world_def rooms_ok_def session_ok_no_session)

lemma world_after_ok: "world_ok (world_after es)"
  by (simp add: world_after_def run_ok init_world_ok)

lemma session_ok_cases:
  "session_ok s \<Longrightarrow> s = no_session
     \<or> (\<exists>r c. truthy_key r \<and> truthy_key c \<and> printable (key_json r) \<and> printable (key_json c)
            \<and> s = join_session r c)"
  by (cases s) (auto simp: session_ok_def no_session_def join_session_def split: option.splits)

lemma sessions_printable:
  "sessions (world_after es) h = no_session
   \<or> (\<exists>r c. truthy_key r \<and> truthy_key c \<and> printable (key_json r) \<and> printable (key_json c)
          \<and> sessions (world_after es) h = join_session r c)"
  using world_after_ok [of es] by (intro session_ok_cases) (simp add: world_ok_def)

lemma run_append:
  "run (es @ es') w = (fst (run es' (fst (run es w))), snd (run es w) @ snd (run es' (fst (run es w))))"
  by (induction es arbitrary: w) (simp_all add: split_beta)

lemma world_after_snoc: "world_after (es @ [e]) = fst (step e (world_after es))"
  by (simp add: world_after_def run_append split_beta)

lemma handleLeave_rooms_has:
  "map_has r (rooms (fst (handleLeave h w))) \<Longrightarrow> map_has r (rooms w)"
  unfolding handleLeave_def clear_session_def
  by (auto simp: Let_def map_has_iff map_of_map_set map_of_map_delete split: option.splits if_splits)

lemma room_of_set: "room_of (w\<lparr>rooms := map_set room ps (rooms w), sessions := s\<rparr>) room = ps"
  by (simp add: room_of_def map_of_map_set)

section \<open>Lemmas on dispatch, relay and leave\<close>

lemma dispatch_join: "m_type m = Some (JStr ''join'') \<Longrightarrow> on_message h (Parsed m) w = caught h (handleJoin h m w)"
  by (simp add: on_message_def)

lemma dispatch_offer: "m_type m = Some (JStr ''offer'') \<Longrightarrow> on_message h (Parsed m) w = handleOffer h m w"
  by (simp add: on_message_def)

lemma dispatch_answer: "m_type m = Some (JStr ''answer'') \<Longrightarrow> on_message h (Parsed m) w = handleAnswer h m w"
  by (simp add: on_message_def)

lemma dispatch_candidate:
  "m_type m = Some (JStr ''ice-candidate'') \<Longrightarrow> on_message h (Parsed m) w = handleIceCandidate h m w"
  by (simp add: on_message_def)

lemma dispatch_leave: "m_type m = Some (JStr ''leave'') \<Longrightarrow> on_message h (Parsed m) w = handleLeave h w"
  by (simp add: on_message_def)

lemma handleOffer_drop:
  "\<not> isAuthenticated (sessions w h) \<or> currentRoom (sessions w h) = None \<or> m_offer m = None
   \<Longrightarrow> handleOffer h m w = (w, [])"
  by (auto simp: handleOffer_def split: option.splits)

lemma handleAnswer_drop:
  "\<not> isAuthenticated (sessions w h) \<or> currentRoom (sessions w h) = None \<or> m_answer m = None
   \<Longrightarrow> handleAnswer h m w = (w, [])"
  by (auto simp: handleAnswer_def split: option.splits)

lemma handleIceCandidate_drop:
  "\<not> isAuthenticated (sessions w h) \<or> currentRoom (sessions w h) = None \<or> m_candidate m = None
   \<Longrightarrow> handleIceCandidate h m w = (w, [])"
  by (auto simp: handleIceCandidate_def split: option.splits)

lemma broadcast_room_of:
  "broadcastToRoom w r msg c = map (\<lambda>e. Send (snd e) msg) (others_open w r c)"
  by (simp add: broadcastToRoom_def room_of_def others_open_def split: option.splits)

lemma handleOffer_relay:
  assumes "isAuthenticated (sessions w h)" "currentRoom (sessions w h) = Some r" "truthy_key r"
      and "m_offer m = Some p" "truthy p"
  shows "handleOffer h m w =
           (w, map (\<lambda>e. Send (snd e) (OfferMsg p (map_option key_json (clientId (sessions w h)))))
                 (others_open w r (clientId (sessions w h))))"
  using assms by (simp add: handleOffer_def broadcast_room_of)

lemma handleAnswer_relay:
  assumes "isAuthenticated (sessions w h)" "currentRoom (sessions w h) = Some r" "truthy_key r"
      and "m_answer m = Some p" "truthy p"
  shows "handleAnswer h m w =
           (w, map (\<lambda>e. Send (snd e) (AnswerMsg p (map_option key_json (clientId (sessions w h)))))
                 (others_open w r (clientId (sessions w h))))"
  using assms by (simp add: handleAnswer_def broadcast_room_of)

lemma handleIceCandidate_relay:
  assumes "isAuthenticated (sessions w h)" "currentRoom (sessions w h) = Some r" "truthy_key r"
      and "m_candidate m = Some p" "truthy p"
  shows "handleIceCandidate h m w =
           (w, map (\<lambda>e. Send (snd e) (IceCandidateMsg p (map_option key_json (clientId (sessions w h)))))
                 (others_open w r (clientId (sessions w h))))"
  using assms by (simp add: handleIceCandidate_def broadcast_room_of)

lemma signaling_relay:
  assumes sig: "is_signaling m" and pay: "required_payload m = Some p" "truthy p"
      and ses: "isAuthenticated (sessions w h)" "currentRoom (sessions w h) = Some r" "truthy_key r"
  shows "step (EvMessage h (Parsed m)) w =
           (w, map (\<lambda>e. Send (snd e) (relayed m p (map_option key_json (clientId (sessions w h)))))
                 (others_open w r (clientId (sessions w h))))"
proof -
  consider (offer) "m_type m = Some (JStr ''offer'')" | (answer) "m_type m = Some (JStr ''answer'')"
    | (candidate) "m_type m = Some (JStr ''ice-candidate'')"
    using sig unfolding is_signaling_def by blast
  then show ?thesis
  proof cases
    case offer
    then have "m_offer m = Some p" "relayed m p (map_option key_json (clientId (sessions w h))) = OfferMsg p (map_option key_json (clientId (sessions w h)))"
      using pay by (simp_all add: required_payload_def relayed_def)
    with offer ses pay(2) show ?thesis by (simp add: dispatch_offer handleOffer_relay)
  next
    case answer
    then have "m_answer m = Some p" "relayed m p (map_option key_json (clientId (sessions w h))) = AnswerMsg p (map_option key_json (clientId (sessions w h)))"
      using pay by (simp_all add: required_payload_def relayed_def)
    with answer ses pay(2) show ?thesis by (simp add: dispatch_answer handleAnswer_relay)
  next
    case candidate
    then have "m_candidate m = Some p" "relayed m p (map_option key_json (clientId (sessions w h))) = IceCandidateMsg p (map_option key_json (clientId (sessions w h)))"
      using pay by (simp_all add: required_payload_def relayed_def)
    with candidate ses pay(2) show ?thesis by (simp add: dispatch_candidate handleIceCandidate_relay)
  qed
qed

lemma room_of_map_set_rooms:
  "room_of (w\<lparr>rooms := map_set r ps (rooms w)\<rparr>) room = (if room = r then ps else room_of w room)"
  by (simp add: room_of_def map_of_map_set)

lemma room_of_map_delete_rooms:
  "room_of (w\<lparr>rooms := map_delete r (rooms w)\<rparr>) room = (if room = r then [] else room_of w room)"
  by (simp add: room_of_def map_of_map_delete)

lemma room_of_sessions_upd [simp]: "room_of (w\<lparr>sessions := s\<rparr>) room = room_of w room"
  by (simp add: room_of_def)

lemma handleLeave_cases:
  "handleLeave h w = (w, []) \<or>
   (\<exists>r c. currentRoom (sessions w h) = Some r \<and> clientId (sessions w h) = Some c \<and> truthy_key r \<and> truthy_key c
      \<and> snd (handleLeave h w) = broadcastToRoom w r (PeerLeft (key_json c)) (Some c)
      \<and> sessions (fst (handleLeave h w)) = (sessions w)(h := no_session)
      \<and> readyState (fst (handleLeave h w)) = readyState w
      \<and> isAlive (fst (handleLeave h w)) = isAlive w
      \<and> clients (fst (handleLeave h w)) = clients w
      \<and> nextHandle (fst (handleLeave h w)) = nextHandle w
      \<and> (\<forall>room. room_of (fst (handleLeave h w)) room =
            (if room = r then map_delete c (room_of w r) else room_of w room)))"
proof (cases "\<exists>r c. currentRoom (sessions w h) = Some r \<and> clientId (sessions w h) = Some c \<and> truthy_key r \<and> truthy_key c")
  case False
  then have "handleLeave h w = (w, [])"
    by (auto simp: handleLeave_def split: option.splits)
  then show ?thesis by blast
next
  case True
  then obtain r c where rc: "currentRoom (sessions w h) = Some r" "clientId (sessions w h) = Some c"
    "truthy_key r" "truthy_key c" by blast
  show ?thesis
  proof (cases "map_of (rooms w) r")
    case None
    then have eq: "handleLeave h w = (clear_session h w, [])"
      using rc by (simp add: handleLeave_def)
    have "broadcastToRoom w r (PeerLeft (key_json c)) (Some c) = []" using None by (simp add: broadcastToRoom_def)
    moreover have "room_of w r = []" using None by (simp add: room_of_def)
    ultimately show ?thesis using rc unfolding eq
      by (auto simp: clear_session_def map_delete_def)
  next
    case (Some ps)
    then have ro: "room_of w r = ps" by (simp add: room_of_def)
    show ?thesis
    proof (cases "map_delete c ps = []")
      case True
      then have eq: "handleLeave h w =
          (clear_session h (w\<lparr>rooms := map_delete r (rooms w)\<rparr>), broadcastToRoom w r (PeerLeft (key_json c)) (Some c))"
        using rc Some by (simp add: handleLeave_def Let_def)
      show ?thesis using rc ro True unfolding eq
        by (auto simp: clear_session_def room_of_map_delete_rooms)
    next
      case False
      then have eq: "handleLeave h w =
          (clear_session h (w\<lparr>rooms := map_set r (map_delete c ps) (rooms w)\<rparr>),
           broadcastToRoom w r (PeerLeft (key_json c)) (Some c))"
        using rc Some by (simp add: handleLeave_def Let_def)
      show ?thesis using rc ro False unfolding eq
        by (auto simp: clear_session_def room_of_map_set_rooms)
    qed
  qed
qed

lemma handleLeave_readyState: "readyState (fst (handleLeave h w)) = readyState w"
  using handleLeave_cases [of h w] by auto

lemma handleLeave_other_room:
  "currentRoom (sessions w h) \<noteq> Some room \<Longrightarrow> room_of (fst (handleLeave h w)) room = room_of w room"
  using handleLeave_cases [of h w] by auto

lemma handleLeave_other_session:
  "h' \<noteq> h \<Longrightarrow> sessions (fst (handleLeave h w)) h' = sessions w h'"
  using handleLeave_cases [of h w] by auto

lemma handleLeave_clears:
  "session_ok (sessions w h) \<Longrightarrow> sessions (fst (handleLeave h w)) h = no_session"
proof -
  assume ok: "session_ok (sessions w h)"
  from session_ok_cases [OF ok] show ?thesis
  proof
    assume n: "sessions w h = no_session"
    then have "handleLeave h w = (w, [])" by (simp add: handleLeave_def no_session_def)
    with n show ?thesis by simp
  next
    assume "\<exists>r c. truthy_key r \<and> truthy_key c \<and> printable (key_json r) \<and> printable (key_json c)
            \<and> sessions w h = join_session r c"
    then obtain r c where "truthy_key r" "truthy_key c" "sessions w h = join_session r c" by blast
    then show ?thesis
      by (simp add: handleLeave_def join_session_def clear_session_def Let_def split: option.splits)
  qed
qed

lemma handleLeave_outputs:
  "x \<in> set (snd (handleLeave h w)) \<Longrightarrow> \<exists>hh c. x = Send hh (PeerLeft c)"
  using handleLeave_cases [of h w] by (auto simp: broadcast_room_of)

lemma leave_first_room_of: "room_of (fst (leave_first h room w)) room = room_of w room"
  by (simp add: leave_first_def handleLeave_other_room)

lemma leave_first_readyState: "readyState (fst (leave_first h room w)) = readyState w"
  by (simp add: leave_first_def handleLeave_readyState)

lemma leave_first_outputs:
  "x \<in> set (snd (leave_first h room w)) \<Longrightarrow> \<exists>hh c. x = Send hh (PeerLeft c)"
  by (auto simp: leave_first_def dest: handleLeave_outputs split: if_splits)

lemma leave_first_none:
  "currentRoom (sessions w h) = None \<or> currentRoom (sessions w h) = Some room
   \<Longrightarrow> leave_first h room w = (w, [])"
  by (auto simp: leave_first_def)

lemma leave_first_other:
  "currentRoom (sessions w h) = Some r0 \<Longrightarrow> r0 \<noteq> room \<Longrightarrow> truthy_key r0
   \<Longrightarrow> leave_first h room w = handleLeave h w"
  by (auto simp: leave_first_def)

lemma reachable_ok: "reachable w \<Longrightarrow> world_ok w"
  by (auto simp: reachable_def world_after_ok)

subsection \<open>Reachable worlds and rooms of two\<close>

lemma reachable_paired: "reachable paired_world"
  unfolding reachable_def paired_world_def by blast

lemma reachable_step: "reachable w \<Longrightarrow> reachable (fst (step e w))"
  unfolding reachable_def using world_after_snoc by metis

lemma reachable_session:
  "reachable w \<Longrightarrow> sessions w h = join_session r a \<Longrightarrow> truthy_key r \<and> truthy_key a"
  using reachable_ok [of w]
  by (auto simp: world_ok_def session_ok_def join_session_def dest!: spec [of _ h])

lemma others_open_two:
  "room_holds w r (a, ha) (b, hb) \<Longrightarrow>
   others_open w r (Some a) = (if readyState w hb = OPEN then [(b, hb)] else [])"
  by (auto simp: room_holds_def others_open_def)

subsection \<open>Join messages\<close>


lemma join_string_unfold:
  assumes j: "is_join m room i" and l: "leave_first h (skey room) w = (w1, out1)"
  shows "on_message h (Parsed m) w =
     (if 2 \<le> length (room_of w1 (skey room)) \<and> \<not> map_has (skey i) (room_of w1 (skey room))
      then (w1, out1 @ [Send h full_error])
      else (let ps' = map_set (skey i) h (room_of w1 (skey room));
                w2 = w1\<lparr>rooms := map_set (skey room) ps' (rooms w1),
                        sessions := (sessions w1)(h := join_session (skey room) (skey i))\<rparr>
            in (w2, out1 @ [Send h (Joined (JStr room) (JStr i) (length ps'))]
                      @ peer_notices h w2 (skey room) (skey i) ps')))"
proof -
  have f: "m_room m = Some (JStr room)" "m_id m = Some (JStr i)" "truthy (JStr room)" "truthy (JStr i)"
    and t: "m_type m = Some (JStr ''join'')"
    using j by (simp_all add: is_join_def)
  have k: "skey room = as_key (nextRef w) (JStr room)" "skey i = as_key (Suc (nextRef w)) (JStr i)"
    by simp_all
  have l': "leave_first h (skey room) (keys_taken (JStr room) (JStr i) w) = (w1, out1)"
    using l by simp
  show ?thesis
    unfolding dispatch_join [OF t] handleJoin_unfold [OF f k l']
    by (simp add: Let_def)
qed


subsection \<open>Leaving while joined; refused joins\<close>

lemma handleLeave_joined:
  assumes "sessions w h = join_session r c" "truthy_key r" "truthy_key c"
  shows "snd (handleLeave h w) = broadcastToRoom w r (PeerLeft (key_json c)) (Some c)
      \<and> sessions (fst (handleLeave h w)) = (sessions w)(h := no_session)
      \<and> readyState (fst (handleLeave h w)) = readyState w
      \<and> (\<forall>room. room_of (fst (handleLeave h w)) room =
            (if room = r then map_delete c (room_of w r) else room_of w room))
      \<and> (map_has r (rooms (fst (handleLeave h w))) \<longleftrightarrow> map_delete c (room_of w r) \<noteq> [])"
proof -
  have rc: "currentRoom (sessions w h) = Some r" "clientId (sessions w h) = Some c"
    using assms(1) by (simp_all add: join_session_def)
  show ?thesis
  proof (cases "map_of (rooms w) r")
    case None
    then have eq: "handleLeave h w = (clear_session h w, [])"
      using rc assms by (simp add: handleLeave_def)
    have "broadcastToRoom w r (PeerLeft (key_json c)) (Some c) = []" using None by (simp add: broadcastToRoom_def)
    moreover have "room_of w r = []" using None by (simp add: room_of_def)
    moreover have "\<not> map_has r (rooms w)" using None by (simp add: map_has_iff)
    ultimately show ?thesis unfolding eq
      by (auto simp: clear_session_def map_delete_def)
  next
    case (Some ps)
    then have ro: "room_of w r = ps" by (simp add: room_of_def)
    show ?thesis
    proof (cases "map_delete c ps = []")
      case True
      then have eq: "handleLeave h w =
          (clear_session h (w\<lparr>rooms := map_delete r (rooms w)\<rparr>), broadcastToRoom w r (PeerLeft (key_json c)) (Some c))"
        using rc assms Some by (simp add: handleLeave_def Let_def)
      show ?thesis using ro True unfolding eq
        by (auto simp: clear_session_def room_of_map_delete_rooms map_has_iff map_of_map_delete)
    next
      case False
      then have eq: "handleLeave h w =
          (clear_session h (w\<lparr>rooms := map_set r (map_delete c ps) (rooms w)\<rparr>),
           broadcastToRoom w r (PeerLeft (key_json c)) (Some c))"
        using rc assms Some by (simp add: handleLeave_def Let_def)
      show ?thesis using ro False unfolding eq
        by (auto simp: clear_session_def room_of_map_set_rooms map_has_iff map_of_map_set)
    qed
  qed
qed

lemma join_refused:
  assumes "is_join m room i" "length (room_of w (skey room)) = 2"
      and "\<not> map_has (skey i) (room_of w (skey room))"
  shows "on_message h (Parsed m) w =
           (fst (leave_first h (skey room) w),
            snd (leave_first h (skey room) w) @ [Send h full_error])"
proof -
  obtain w1 out1 where l: "leave_first h (skey room) w = (w1, out1)"
    by (cases "leave_first h (skey room) w")
  have "room_of w1 (skey room) = room_of w (skey room)"
    using leave_first_room_of [of h "skey room" w] l by simp
  then show ?thesis
    unfolding join_string_unfold [OF assms(1) l] using assms(2,3) l by simp
qed

subsection \<open>Accepted joins\<close>

lemma map_set_keys_has: "map_has k m \<Longrightarrow> map fst (map_set k v m) = map fst m"
  by (simp add: keys_map_set map_has_def)

lemma join_accepted:
  assumes "is_join m room i"
      and "length (room_of w (skey room)) < 2 \<or> map_has (skey i) (room_of w (skey room))"
  shows "on_message h (Parsed m) w =
           (let w1 = fst (leave_first h (skey room) w);
                ps' = map_set (skey i) h (room_of w (skey room));
                w2 = w1\<lparr>rooms := map_set (skey room) ps' (rooms w1),
                        sessions := (sessions w1)(h := join_session (skey room) (skey i))\<rparr>
            in (w2, snd (leave_first h (skey room) w)
                      @ [Send h (Joined (JStr room) (JStr i) (length ps'))]
                      @ peer_notices h w2 (skey room) (skey i) ps'))"
proof -
  obtain w1 out1 where l: "leave_first h (skey room) w = (w1, out1)"
    by (cases "leave_first h (skey room) w")
  have "room_of w1 (skey room) = room_of w (skey room)"
    using leave_first_room_of [of h "skey room" w] l by simp
  then show ?thesis
    unfolding join_string_unfold [OF assms(1) l] using assms(2) l by (auto simp: Let_def)
qed

lemma join_accepted_world:
  assumes "is_join m room i" "length (room_of w (skey room)) < 2 \<or> map_has (skey i) (room_of w (skey room))"
  shows "room_of (fst (on_message h (Parsed m) w)) (skey room) = map_set (skey i) h (room_of w (skey room))"
    and "sessions (fst (on_message h (Parsed m) w)) h = join_session (skey room) (skey i)"
    and "readyState (fst (on_message h (Parsed m) w)) = readyState w"
  unfolding join_accepted [OF assms]
  by (simp_all add: Let_def room_of_set room_of_map_set_rooms leave_first_readyState)

lemma join_accepted_twice:
  assumes "is_join m room i" "length (room_of w (skey room)) < 2 \<or> map_has (skey i) (room_of w (skey room))"
  shows "fst (on_message h (Parsed m) (fst (on_message h (Parsed m) w)))
           = fst (on_message h (Parsed m) w)"
proof -
  let ?w' = "fst (on_message h (Parsed m) w)"
  note w = join_accepted_world [OF assms, of h]
  have has: "map_has (skey i) (room_of ?w' (skey room))"
    unfolding w(1) by (simp add: map_has_iff map_of_map_set)
  then have c: "length (room_of ?w' (skey room)) < 2 \<or> map_has (skey i) (room_of ?w' (skey room))" by simp
  have l: "leave_first h (skey room) ?w' = (?w', [])"
    by (rule leave_first_none) (simp add: w(2) join_session_def)
  have rs: "rooms ?w' = map_set (skey room) (map_set (skey i) h (room_of w (skey room))) (rooms (fst (leave_first h (skey room) w)))"
    unfolding join_accepted [OF assms] by (simp add: Let_def)
  have ss: "(sessions ?w')(h := join_session (skey room) (skey i)) = sessions ?w'"
    using w(2) by (simp add: fun_upd_idem)
  have "fst (on_message h (Parsed m) ?w') =
          ?w'\<lparr>rooms := map_set (skey room) (map_set (skey i) h (room_of ?w' (skey room))) (rooms ?w'),
              sessions := (sessions ?w')(h := join_session (skey room) (skey i))\<rparr>"
    unfolding join_accepted [OF assms(1) c] by (simp add: Let_def l)
  also have "\<dots> = ?w'"
    unfolding ss w(1) map_set_map_set by (simp add: rs map_set_map_set)
  finally show ?thesis .
qed

subsection \<open>The events that run the leave procedure\<close>



lemma transport_closed_keeps [simp]:
  "sessions (transport_closed h w) = sessions w"
  "room_of (transport_closed h w) r = room_of w r"
  "rooms (transport_closed h w) = rooms w"
  by (simp_all add: transport_closed_def room_of_def)



subsection \<open>Close compared with leave\<close>

lemma room_of_cong: "rooms w0 = rooms w \<Longrightarrow> room_of w0 r = room_of w r"
  by (simp add: room_of_def)

lemma broadcast_closed:
  "broadcastToRoom (transport_closed h w) r msg c = filter (not_to h) (broadcastToRoom w r msg c)"
proof -
  have "others_open (transport_closed h w) r c = filter (\<lambda>e. snd e \<noteq> h) (others_open w r c)"
    unfolding others_open_def transport_closed_keeps filter_filter
    by (rule filter_cong [OF refl]) (auto simp: transport_closed_def)
  then show ?thesis
    unfolding broadcast_room_of by (simp add: filter_map o_def not_to_def)
qed

lemma handleLeave_closed:
  "rooms (fst (handleLeave h (transport_closed h w))) = rooms (fst (handleLeave h w))
   \<and> sessions (fst (handleLeave h (transport_closed h w))) = sessions (fst (handleLeave h w))
   \<and> snd (handleLeave h (transport_closed h w)) = filter (not_to h) (snd (handleLeave h w))"
proof (cases "\<exists>r c. currentRoom (sessions w h) = Some r \<and> clientId (sessions w h) = Some c \<and> truthy_key r \<and> truthy_key c")
  case False
  then have "handleLeave h w = (w, [])" "handleLeave h (transport_closed h w) = (transport_closed h w, [])"
    by (auto simp: handleLeave_def split: option.splits)
  then show ?thesis by simp
next
  case True
  then obtain r c where rc: "currentRoom (sessions w h) = Some r" "clientId (sessions w h) = Some c"
    "truthy_key r" "truthy_key c" by blast
  show ?thesis
  proof (cases "map_of (rooms w) r")
    case None
    then show ?thesis using rc
      by (simp add: handleLeave_def clear_session_def)
  next
    case (Some ps)
    then show ?thesis using rc
      by (simp add: handleLeave_def clear_session_def Let_def broadcast_closed)
  qed
qed

lemma joined_pair_leave:
  assumes s: "sessions w0 h = join_session r a" and ne: "truthy_key r" "truthy_key a"
      and rh: "room_holds w0 r (a, h) (b, hb)"
  shows "room_of (fst (handleLeave h w0)) r = [(b, hb)]
      \<and> snd (handleLeave h w0) = (if readyState w0 hb = OPEN then [Send hb (PeerLeft (key_json a))] else [])"
proof -
  note j = handleLeave_joined [OF s ne]
  have d: "map_delete a (room_of w0 r) = [(b, hb)]"
    using rh by (auto simp: room_holds_def map_delete_def)
  show ?thesis using j d others_open_two [OF rh]
    by (simp add: broadcast_room_of)
qed

lemma joined_alone_leave:
  assumes s: "sessions w0 h = join_session r a" and ne: "truthy_key r" "truthy_key a"
      and ro: "room_of w0 r = [(a, ha)]"
  shows "\<not> map_has r (rooms (fst (handleLeave h w0))) \<and> snd (handleLeave h w0) = []"
  using handleLeave_joined [OF s ne] ro
  by (simp add: broadcast_room_of others_open_def map_delete_def)

lemma leaving_step_world:
  assumes "e \<in> set (leaving_events h)"
  shows "step e w = handleLeave h (if e = EvClose h then transport_closed h w else w)"
proof -
  have "m_type leave_message = Some (JStr ''leave'')" by (simp add: leave_message_def blank_message_def)
  then show ?thesis using assms by (auto simp: leaving_events_def dispatch_leave)
qed

lemma room_holds_closed [simp]: "room_holds (transport_closed h w) r x y = room_holds w r x y"
  by (simp add: room_holds_def)

subsection \<open>The heartbeat\<close>

lemma heartbeat_terminates:
  "h \<in> set hs \<Longrightarrow> \<not> isAlive w h \<Longrightarrow> Terminate h \<in> set (snd (heartbeat hs w))"
  by (induction hs arbitrary: w) (auto simp: split_beta)

lemma heartbeat_dead_stays:
  "\<not> isAlive w h \<Longrightarrow> \<not> isAlive (fst (heartbeat hs w)) h"
  by (induction hs arbitrary: w) (auto simp: split_beta)

lemma heartbeat_clears:
  "h \<in> set hs \<Longrightarrow> \<not> isAlive (fst (heartbeat hs w)) h"
  by (induction hs arbitrary: w) (auto simp: split_beta heartbeat_dead_stays)

lemma handleLeave_frame:
  "isAlive (fst (handleLeave h w)) = isAlive w \<and> clients (fst (handleLeave h w)) = clients w
   \<and> nextHandle (fst (handleLeave h w)) = nextHandle w"
  using handleLeave_cases [of h w] by auto

lemma leave_first_frame:
  "isAlive (fst (leave_first h room w)) = isAlive w \<and> clients (fst (leave_first h room w)) = clients w
   \<and> nextHandle (fst (leave_first h room w)) = nextHandle w"
  by (simp add: leave_first_def handleLeave_frame)

lemma keys_taken_frame:
  "isAlive (keys_taken rv iv w) = isAlive w \<and> clients (keys_taken rv iv w) = clients w
   \<and> nextHandle (keys_taken rv iv w) = nextHandle w"
  by simp

lemma handleJoin_frame:
  "isAlive (fst (caught h (handleJoin h m w))) = isAlive w
   \<and> clients (fst (caught h (handleJoin h m w))) = clients w
   \<and> nextHandle (fst (caught h (handleJoin h m w))) = nextHandle w"
proof (cases "\<exists>rv iv. m_room m = Some rv \<and> m_id m = Some iv \<and> truthy rv \<and> truthy iv")
  case False
  then show ?thesis by (simp add: handleJoin_falsy)
next
  case True
  then obtain rv iv where f: "m_room m = Some rv" "m_id m = Some iv" "truthy rv" "truthy iv"
    by blast
  define room where "room = as_key (nextRef w) rv"
  define i where "i = as_key (Suc (nextRef w)) iv"
  obtain w1 out1 where l: "leave_first h room (keys_taken rv iv w) = (w1, out1)"
    by (cases "leave_first h room (keys_taken rv iv w)")
  have "isAlive w1 = isAlive w \<and> clients w1 = clients w \<and> nextHandle w1 = nextHandle w"
    using leave_first_frame [of h room "keys_taken rv iv w"] l by simp
  then show ?thesis
    unfolding handleJoin_unfold [OF f room_def i_def l] by (simp add: Let_def)
qed

lemma on_message_frame:
  "isAlive (fst (on_message h d w)) = isAlive w \<and> clients (fst (on_message h d w)) = clients w
   \<and> nextHandle (fst (on_message h d w)) = nextHandle w"
  by (cases d)
     (simp_all add: on_message_def handleJoin_frame handleLeave_frame handleOffer_world
        handleAnswer_world handleIceCandidate_world)

lemma step_keeps_silent:
  assumes "e \<noteq> EvPong h" "e \<noteq> EvClose h"
      and "h \<in> set (clients w)" "h < nextHandle w" "\<not> isAlive w h"
  shows "h \<in> set (clients (fst (step e w))) \<and> h < nextHandle (fst (step e w))
         \<and> \<not> isAlive (fst (step e w)) h"
proof (cases e)
  case EvConnection
  then show ?thesis using assms by (simp add: on_connection_def Let_def)
next
  case (EvMessage h' d)
  then show ?thesis using assms by (simp add: on_message_frame)
next
  case (EvClose h')
  then show ?thesis using assms by (simp add: handleLeave_frame transport_closed_def)
next
  case (EvError h')
  then show ?thesis using assms by (simp add: handleLeave_frame)
next
  case (EvPong h')
  then show ?thesis using assms by simp
next
  case EvHeartbeat
  then show ?thesis using assms by (simp add: heartbeat_keeps heartbeat_dead_stays)
next
  case (EvReadyState h' rs)
  then show ?thesis using assms by simp
qed

lemma run_keeps_silent:
  assumes "\<forall>e\<in>set es. e \<noteq> EvPong h \<and> e \<noteq> EvClose h"
      and "h \<in> set (clients w)" "h < nextHandle w" "\<not> isAlive w h"
  shows "h \<in> set (clients (fst (run es w))) \<and> \<not> isAlive (fst (run es w)) h"
  using assms
proof (induction es arbitrary: w)
  case Nil
  then show ?case by simp
next
  case (Cons e es)
  have s: "h \<in> set (clients (fst (step e w))) \<and> h < nextHandle (fst (step e w))
         \<and> \<not> isAlive (fst (step e w)) h"
    using Cons.prems by (intro step_keeps_silent) simp_all
  have "h \<in> set (clients (fst (run es (fst (step e w))))) \<and> \<not> isAlive (fst (run es (fst (step e w)))) h"
    using Cons.prems(1) s by (intro Cons.IH) simp_all
  then show ?case by (simp add: split_beta)
qed

lemma two_heartbeats_terminate:
  assumes "\<forall>e\<in>set es. e \<noteq> EvPong h \<and> e \<noteq> EvClose h"
      and "h \<in> set (clients w)" "h < nextHandle w"
  shows "Terminate h \<in> set (snd (run (EvHeartbeat # es @ [EvHeartbeat]) w))"
proof -
  let ?w1 = "fst (heartbeat (clients w) w)"
  have w1: "h \<in> set (clients ?w1)" "h < nextHandle ?w1" "\<not> isAlive ?w1 h"
    using assms(2,3) by (simp_all add: heartbeat_keeps heartbeat_clears)
  let ?w2 = "fst (run es ?w1)"
  have w2: "h \<in> set (clients ?w2) \<and> \<not> isAlive ?w2 h"
    using assms(1) w1 by (rule run_keeps_silent)
  then have "Terminate h \<in> set (snd (heartbeat (clients ?w2) ?w2))"
    by (simp add: heartbeat_terminates)
  then show ?thesis by (simp add: split_beta run_append)
qed

lemma close_joined:
  assumes ok: "reachable w" and s: "sessions w h = join_session r a"
  shows "map_of (room_of (fst (step (EvClose h) w)) r) a = None
       \<and> (map_has r (rooms (fst (step (EvClose h) w))) \<longleftrightarrow> map_delete a (room_of w r) \<noteq> [])
       \<and> snd (step (EvClose h) w) = map (\<lambda>p. Send (snd p) (PeerLeft (key_json a))) (peers_to_notify w h r a)"
proof -
  note ne = reachable_session [OF ok s]
  have s0: "sessions (transport_closed h w) h = join_session r a" using s by simp
  note j = handleLeave_joined [OF s0 ne [THEN conjunct1] ne [THEN conjunct2]]
  have o: "others_open (transport_closed h w) r (Some a) = peers_to_notify w h r a"
    unfolding others_open_def peers_to_notify_def transport_closed_keeps
    by (rule filter_cong [OF refl]) (auto simp: transport_closed_def)
  show ?thesis using j o by (simp add: broadcast_room_of map_of_map_delete)
qed

section \<open>Lemmas on keys and empty rooms\<close>

subsection \<open>Object keys are new\<close>

lemma key_known_mono: "key_known n k \<Longrightarrow> n \<le> j \<Longrightarrow> key_known j k"
  by (cases k) auto

lemma key_known_fresh: "key_known n k \<Longrightarrow> \<not> is_primitive v \<Longrightarrow> n \<le> j \<Longrightarrow> as_key j v \<noteq> k"
  by (cases k) (auto simp: as_key_def)

lemma handleLeave_nextRef: "nextRef (fst (handleLeave h w)) = nextRef w"
  by (simp add: handleLeave_def Let_def clear_session_def split: option.splits)

lemma handleLeave_session:
  "sessions (fst (handleLeave h w)) h' = sessions w h' \<or> sessions (fst (handleLeave h w)) h' = no_session"
  by (auto simp: handleLeave_def Let_def clear_session_def split: option.splits)

lemma handleLeave_rooms_sub:
  assumes "p \<in> set (rooms (fst (handleLeave h w)))"
  shows "\<exists>p0\<in>set (rooms w). fst p = fst p0 \<and> set (snd p) \<subseteq> set (snd p0)"
proof (cases "handleLeave h w = (w, [])")
  case True
  then show ?thesis using assms by auto
next
  case False
  then obtain r c where r: "currentRoom (sessions w h) = Some r" "clientId (sessions w h) = Some c"
      "truthy_key r" "truthy_key c"
    using handleLeave_cases [of h w] by blast
  show ?thesis
  proof (cases "map_of (rooms w) r")
    case None
    then show ?thesis using assms r by (auto simp: handleLeave_def clear_session_def)
  next
    case (Some ps)
    then have i: "(r, ps) \<in> set (rooms w)" by (rule map_of_SomeD)
    have "p \<in> set (map_delete r (rooms w)) \<or> p \<in> set (map_set r (map_delete c ps) (rooms w))"
      using assms r Some by (auto simp: handleLeave_def clear_session_def Let_def split: if_splits)
    then have "p \<in> set (rooms w) \<or> p = (r, map_delete c ps)"
      by (auto simp: set_map_delete dest: in_set_map_set)
    then show ?thesis
    proof
      assume "p \<in> set (rooms w)"
      then show ?thesis by auto
    next
      assume "p = (r, map_delete c ps)"
      then have "fst p = fst (r, ps) \<and> set (snd p) \<subseteq> set (snd (r, ps))"
        by (auto simp: set_map_delete)
      then show ?thesis using i by blast
    qed
  qed
qed

lemma handleLeave_known: "keys_known w \<Longrightarrow> keys_known (fst (handleLeave h w))"
proof -
  assume a: "keys_known w"
  have r: "key_known (nextRef w) (fst p) \<and> (\<forall>q\<in>set (snd p). key_known (nextRef w) (fst q))"
    if "p \<in> set (rooms (fst (handleLeave h w)))" for p
  proof -
    from handleLeave_rooms_sub [OF that] obtain p0 where
      p0: "p0 \<in> set (rooms w)" "fst p = fst p0" "set (snd p) \<subseteq> set (snd p0)" by blast
    with a show ?thesis by (auto simp: keys_known_def)
  qed
  have s: "key_known (nextRef w) k"
    if "currentRoom (sessions (fst (handleLeave h w)) h') = Some k
        \<or> clientId (sessions (fst (handleLeave h w)) h') = Some k" for h' k
    using that a handleLeave_session [of h w h'] by (auto simp: keys_known_def no_session_def)
  show ?thesis
    unfolding keys_known_def handleLeave_nextRef using r s by blast
qed

lemma keys_taken_known: "keys_known w \<Longrightarrow> keys_known (keys_taken rv iv w)"
proof -
  assume a: "keys_known w"
  have "key_known (nextRef w) k \<Longrightarrow> key_known (Suc (Suc (nextRef w))) k" for k
    by (erule key_known_mono) simp
  then show ?thesis using a by (auto simp: keys_known_def keys_taken_def)
qed

lemma leave_first_known: "keys_known w \<Longrightarrow> keys_known (fst (leave_first h room w))"
  by (simp add: leave_first_def handleLeave_known)

lemma leave_first_nextRef: "nextRef (fst (leave_first h room w)) = nextRef w"
  by (simp add: leave_first_def handleLeave_nextRef)

lemma room_of_in: "q \<in> set (room_of w room) \<Longrightarrow> \<exists>p\<in>set (rooms w). q \<in> set (snd p)"
proof (cases "map_of (rooms w) room")
  case None
  assume "q \<in> set (room_of w room)"
  then show ?thesis using None by (simp add: room_of_def)
next
  case (Some ps)
  assume "q \<in> set (room_of w room)"
  then have "q \<in> set (snd (room, ps))" using Some by (simp add: room_of_def)
  then show ?thesis using map_of_SomeD [OF Some] by blast
qed

lemma handleJoin_known: "keys_known w \<Longrightarrow> keys_known (fst (caught h (handleJoin h m w)))"
proof -
  assume a: "keys_known w"
  show ?thesis
  proof (cases "\<exists>rv iv. m_room m = Some rv \<and> m_id m = Some iv \<and> truthy rv \<and> truthy iv")
    case False
    then show ?thesis using a by (simp add: handleJoin_falsy)
  next
    case True
    then obtain rv iv where f: "m_room m = Some rv" "m_id m = Some iv" "truthy rv" "truthy iv"
      by blast
    define room where "room = as_key (nextRef w) rv"
    define i where "i = as_key (Suc (nextRef w)) iv"
    obtain w1 out1 where l: "leave_first h room (keys_taken rv iv w) = (w1, out1)"
      by (cases "leave_first h room (keys_taken rv iv w)")
    have "keys_known (fst (leave_first h room (keys_taken rv iv w)))"
      by (intro leave_first_known keys_taken_known a)
    then have a1: "keys_known w1" using l by simp
    have n1: "nextRef w1 = nextRef (keys_taken rv iv w)"
      using leave_first_nextRef [of h room "keys_taken rv iv w"] l by simp
    have kr: "key_known (nextRef w1) room" unfolding n1 room_def
      by (auto simp: as_key_def keys_taken_def)
    have ki: "key_known (nextRef w1) i" unfolding n1 i_def
      by (auto simp: as_key_def keys_taken_def)
    have ps: "\<forall>q\<in>set (room_of w1 room). key_known (nextRef w1) (fst q)"
      using a1 by (auto simp: keys_known_def dest!: room_of_in)
    have ps': "\<forall>q\<in>set (map_set i h (room_of w1 room)). key_known (nextRef w1) (fst q)"
      using ps ki by (auto dest!: in_set_map_set)
    have e: "\<forall>p\<in>set (map_set room [] (rooms w1)). key_known (nextRef w1) (fst p)
          \<and> (\<forall>q\<in>set (snd p). key_known (nextRef w1) (fst q))"
      using a1 kr by (auto simp: keys_known_def dest!: in_set_map_set)
    have s: "\<forall>p\<in>set (map_set room (map_set i h (room_of w1 room)) (rooms w1)).
          key_known (nextRef w1) (fst p) \<and> (\<forall>q\<in>set (snd p). key_known (nextRef w1) (fst q))"
      using a1 kr ps' by (auto simp: keys_known_def dest!: in_set_map_set)
    have k: "\<forall>h k. currentRoom (sessions w1 h) = Some k \<or> clientId (sessions w1 h) = Some k
            \<longrightarrow> key_known (nextRef w1) k"
      and r: "\<forall>p\<in>set (rooms w1). key_known (nextRef w1) (fst p)
          \<and> (\<forall>q\<in>set (snd p). key_known (nextRef w1) (fst q))"
      using a1 by (simp_all add: keys_known_def)
    show ?thesis
      unfolding handleJoin_unfold [OF f room_def i_def l]
      using e s k r kr ki by (auto simp: Let_def keys_known_def join_session_def)
  qed
qed

lemma heartbeat_nextRef: "nextRef (fst (heartbeat hs w)) = nextRef w"
  by (induction hs arbitrary: w) (simp_all add: split_beta Let_def)

lemma step_known: "keys_known w \<Longrightarrow> keys_known (fst (step e w))"
proof (cases e)
  case EvConnection
  assume "keys_known w"
  then show ?thesis using EvConnection
    by (simp add: keys_known_def on_connection_def Let_def no_session_def)
next
  case (EvMessage h d)
  assume "keys_known w"
  then show ?thesis using EvMessage
    by (cases d)
       (simp_all add: on_message_def handleJoin_known handleLeave_known handleOffer_world
          handleAnswer_world handleIceCandidate_world)
next
  case (EvClose h)
  assume "keys_known w"
  then have "keys_known (transport_closed h w)" by (simp add: keys_known_def transport_closed_def)
  then show ?thesis using EvClose by (simp add: handleLeave_known)
next
  case (EvError h)
  assume "keys_known w"
  then show ?thesis using EvError by (simp add: handleLeave_known)
next
  case (EvPong h)
  assume "keys_known w"
  then show ?thesis using EvPong by (simp add: keys_known_def)
next
  case EvHeartbeat
  assume "keys_known w"
  then show ?thesis using EvHeartbeat heartbeat_keeps [of "clients w" w]
    by (simp add: keys_known_def heartbeat_nextRef)
next
  case (EvReadyState h rs)
  assume "keys_known w"
  then show ?thesis using EvReadyState by (simp add: keys_known_def)
qed

lemma run_known: "keys_known w \<Longrightarrow> keys_known (fst (run es w))"
proof (induction es arbitrary: w)
  case Nil
  then show ?case by simp
next
  case (Cons e es)
  from Cons.prems have "keys_known (fst (step e w))" by (rule step_known)
  then have "keys_known (fst (run es (fst (step e w))))" by (rule Cons.IH)
  then show ?case by (simp add: split_beta Let_def)
qed

lemma keys_fresh: "keys_known (world_after es)"
  unfolding world_after_def
  by (rule run_known) (simp add: keys_known_def init_world_def no_session_def)

subsection \<open>A room left empty stays\<close>

lemma ref_below_as_key: "ref_below n k \<Longrightarrow> n \<le> j \<Longrightarrow> as_key j v \<noteq> k"
  by (cases k) (auto simp: as_key_def)

lemma ref_below_mono: "ref_below n k \<Longrightarrow> n \<le> j \<Longrightarrow> ref_below j k"
  by (cases k) auto

lemma handleLeave_map_of:
  "currentRoom (sessions w h) \<noteq> Some k \<Longrightarrow> map_of (rooms (fst (handleLeave h w))) k = map_of (rooms w) k"
  by (auto simp: handleLeave_def Let_def clear_session_def map_of_map_set map_of_map_delete
        split: option.splits)

lemma handleLeave_abandoned: "abandoned k w \<Longrightarrow> abandoned k (fst (handleLeave h w))"
proof -
  assume a: "abandoned k w"
  then have c: "currentRoom (sessions w h') \<noteq> Some k" for h' by (simp add: abandoned_def)
  have "currentRoom (sessions (fst (handleLeave h w)) h') \<noteq> Some k" for h'
    using handleLeave_session [of h w h'] c [of h'] by (auto simp: no_session_def)
  then show ?thesis
    using a handleLeave_map_of [OF c, of h] by (simp add: abandoned_def handleLeave_nextRef)
qed

lemma keys_taken_abandoned: "abandoned k w \<Longrightarrow> abandoned k (keys_taken rv iv w)"
  by (cases k) (auto simp: abandoned_def keys_taken_def)

lemma leave_first_abandoned: "abandoned k w \<Longrightarrow> abandoned k (fst (leave_first h room w))"
  by (simp add: leave_first_def handleLeave_abandoned)

lemma keys_taken_nextRef: "nextRef w \<le> nextRef (keys_taken rv iv w)"
  by (simp add: keys_taken_def)

lemma handleJoin_abandoned: "abandoned k w \<Longrightarrow> abandoned k (fst (caught h (handleJoin h m w)))"
proof -
  assume a: "abandoned k w"
  show ?thesis
  proof (cases "\<exists>rv iv. m_room m = Some rv \<and> m_id m = Some iv \<and> truthy rv \<and> truthy iv")
    case False
    then show ?thesis using a by (simp add: handleJoin_falsy)
  next
    case True
    then obtain rv iv where f: "m_room m = Some rv" "m_id m = Some iv" "truthy rv" "truthy iv"
      by blast
    define room where "room = as_key (nextRef w) rv"
    define i where "i = as_key (Suc (nextRef w)) iv"
    obtain w1 out1 where l: "leave_first h room (keys_taken rv iv w) = (w1, out1)"
      by (cases "leave_first h room (keys_taken rv iv w)")
    have "abandoned k (fst (leave_first h room (keys_taken rv iv w)))"
      by (intro leave_first_abandoned keys_taken_abandoned a)
    then have a1: "abandoned k w1" using l by simp
    have ne: "room \<noteq> k" using a unfolding room_def
      by (intro ref_below_as_key [of "nextRef w"]) (simp_all add: abandoned_def)
    show ?thesis
      unfolding handleJoin_unfold [OF f room_def i_def l]
      using a1 ne by (auto simp: Let_def abandoned_def map_of_map_set join_session_def)
  qed
qed

lemma on_message_abandoned: "abandoned k w \<Longrightarrow> abandoned k (fst (on_message h d w))"
  by (cases d)
     (simp_all add: on_message_def handleJoin_abandoned handleLeave_abandoned handleOffer_world
        handleAnswer_world handleIceCandidate_world)

lemma step_abandoned: "abandoned k w \<Longrightarrow> abandoned k (fst (step e w))"
proof (cases e)
  case EvConnection
  assume "abandoned k w"
  then show ?thesis using EvConnection
    by (simp add: abandoned_def on_connection_def Let_def no_session_def)
next
  case (EvMessage h d)
  assume "abandoned k w"
  then show ?thesis using EvMessage by (simp add: on_message_abandoned)
next
  case (EvClose h)
  assume "abandoned k w"
  then have "abandoned k (transport_closed h w)" by (simp add: abandoned_def transport_closed_def)
  then show ?thesis using EvClose by (simp add: handleLeave_abandoned)
next
  case (EvError h)
  assume "abandoned k w"
  then show ?thesis using EvError by (simp add: handleLeave_abandoned)
next
  case (EvPong h)
  assume "abandoned k w"
  then show ?thesis using EvPong by (simp add: abandoned_def)
next
  case EvHeartbeat
  assume "abandoned k w"
  then show ?thesis using EvHeartbeat heartbeat_keeps [of "clients w" w]
    by (simp add: abandoned_def heartbeat_nextRef)
next
  case (EvReadyState h rs)
  assume "abandoned k w"
  then show ?thesis using EvReadyState by (simp add: abandoned_def)
qed

lemma run_abandoned: "abandoned k w \<Longrightarrow> abandoned k (fst (run es w))"
proof (induction es arbitrary: w)
  case Nil
  then show ?case by simp
next
  case (Cons e es)
  from Cons.prems have "abandoned k (fst (step e w))" by (rule step_abandoned)
  then have "abandoned k (fst (run es (fst (step e w))))" by (rule Cons.IH)
  then show ?case by (simp add: split_beta Let_def)
qed

lemma empty_room_abandoned: "abandoned unprintable_room (world_after empty_room_trace)"
proof -
  have r: "map_of (rooms (world_after empty_room_trace)) unprintable_room = Some []" by code_simp
  have n: "ref_below (nextRef (world_after empty_room_trace)) unprintable_room" by code_simp
  have s: "sessions (world_after empty_room_trace) = (\<lambda>h. no_session)"
    by (simp add: world_after_def empty_room_trace_def on_connection_def init_world_def
          on_message_def unprintable_room_join_def blank_message_def handleJoin_def Let_def
          as_key_def map_has_def fun_eq_iff no_session_def)
  show ?thesis using r n by (simp add: abandoned_def s no_session_def)
qed

subsection \<open>Rooms under joins that can be printed\<close>

lemma no_empty_map_set: "\<forall>p\<in>set m. snd p \<noteq> [] \<Longrightarrow> v \<noteq> [] \<Longrightarrow> \<forall>p\<in>set (map_set k v m). snd p \<noteq> []"
  by (auto dest: in_set_map_set)

lemma map_set_not_empty: "map_set k v m \<noteq> []"
  by (cases m) auto

lemma handleLeave_no_empty: "no_empty_room w \<Longrightarrow> no_empty_room (fst (handleLeave h w))"
  by (auto simp: handleLeave_def Let_def clear_session_def no_empty_room_def set_map_delete
        dest!: in_set_map_set split: option.splits)

lemma leave_first_no_empty: "no_empty_room w \<Longrightarrow> no_empty_room (fst (leave_first h room w))"
  by (simp add: leave_first_def handleLeave_no_empty)

lemma keys_taken_no_empty: "no_empty_room w \<Longrightarrow> no_empty_room (keys_taken rv iv w)"
  by (simp add: no_empty_room_def)

lemma handleJoin_no_empty:
  assumes a: "no_empty_room w" and p: "printable_field (m_room m)" "printable_field (m_id m)"
  shows "no_empty_room (fst (caught h (handleJoin h m w)))"
proof (cases "\<exists>rv iv. m_room m = Some rv \<and> m_id m = Some iv \<and> truthy rv \<and> truthy iv")
  case False
  then show ?thesis using a by (simp add: handleJoin_falsy)
next
  case True
  then obtain rv iv where f: "m_room m = Some rv" "m_id m = Some iv" "truthy rv" "truthy iv"
    by blast
  define room where "room = as_key (nextRef w) rv"
  define i where "i = as_key (Suc (nextRef w)) iv"
  obtain w1 out1 where l: "leave_first h room (keys_taken rv iv w) = (w1, out1)"
    by (cases "leave_first h room (keys_taken rv iv w)")
  have "no_empty_room (fst (leave_first h room (keys_taken rv iv w)))"
    by (intro leave_first_no_empty keys_taken_no_empty a)
  then have a1: "\<forall>p\<in>set (rooms w1). snd p \<noteq> []" using l by (simp add: no_empty_room_def)
  have pr: "printable rv" "printable iv" using p f by simp_all
  have "\<forall>p\<in>set (map_set room (map_set i h (room_of w1 room)) (rooms w1)). snd p \<noteq> []"
    using a1 by (intro no_empty_map_set map_set_not_empty)
  then show ?thesis
    unfolding handleJoin_unfold [OF f room_def i_def l]
    using a1 pr by (simp add: Let_def no_empty_room_def)
qed

lemma step_no_empty: "no_empty_room w \<Longrightarrow> printable_join e \<Longrightarrow> no_empty_room (fst (step e w))"
proof (cases e)
  case EvConnection
  assume "no_empty_room w"
  then show ?thesis using EvConnection by (simp add: no_empty_room_def on_connection_def Let_def)
next
  case (EvMessage h d)
  assume a: "no_empty_room w" and p: "printable_join e"
  show ?thesis
  proof (cases d)
    case Unparseable
    then show ?thesis using a EvMessage by (simp add: on_message_def)
  next
    case (Parsed m)
    then show ?thesis using a p EvMessage
      by (auto simp: on_message_def handleJoin_no_empty handleLeave_no_empty handleOffer_world
        handleAnswer_world handleIceCandidate_world)
  qed
next
  case (EvClose h)
  assume "no_empty_room w"
  then have "no_empty_room (transport_closed h w)" by (simp add: no_empty_room_def transport_closed_def)
  then show ?thesis using EvClose by (simp add: handleLeave_no_empty)
next
  case (EvError h)
  assume "no_empty_room w"
  then show ?thesis using EvError by (simp add: handleLeave_no_empty)
next
  case (EvPong h)
  assume "no_empty_room w"
  then show ?thesis using EvPong by (simp add: no_empty_room_def)
next
  case EvHeartbeat
  assume "no_empty_room w"
  then show ?thesis using EvHeartbeat heartbeat_keeps [of "clients w" w]
    by (simp add: no_empty_room_def)
next
  case (EvReadyState h rs)
  assume "no_empty_room w"
  then show ?thesis using EvReadyState by (simp add: no_empty_room_def)
qed

lemma run_no_empty:
  "no_empty_room w \<Longrightarrow> \<forall>e\<in>set es. printable_join e \<Longrightarrow> no_empty_room (fst (run es w))"
proof (induction es arbitrary: w)
  case Nil
  then show ?case by simp
next
  case (Cons e es)
  from Cons.prems have "no_empty_room (fst (step e w))" by (intro step_no_empty) simp_all
  then have "no_empty_room (fst (run es (fst (step e w))))" using Cons.prems by (intro Cons.IH) simp_all
  then show ?case by (simp add: split_beta Let_def)
qed

lemma room_count_printable_joins:
  assumes "\<forall>e\<in>set es. printable_join e"
  shows "\<forall>p\<in>set (rooms (world_after es)).
           distinct (map fst (snd p)) \<and> (length (snd p) = 1 \<or> length (snd p) = 2)"
proof
  fix p assume p: "p \<in> set (rooms (world_after es))"
  have "no_empty_room init_world" by (simp add: no_empty_room_def init_world_def)
  then have "no_empty_room (world_after es)"
    unfolding world_after_def using assms by (rule run_no_empty)
  then have n: "snd p \<noteq> []" using p by (simp add: no_empty_room_def)
  have "rooms_ok (rooms (world_after es))" using world_after_ok [of es] by (simp add: world_ok_def)
  then have "room_ok (snd p)" using p by (simp add: rooms_ok_def)
  then have d: "distinct (map fst (snd p))" and l: "length (snd p) \<le> 2"
    by (simp_all add: room_ok_def)
  have "length (snd p) \<noteq> 0" using n by simp
  with l have "length (snd p) = 1 \<or> length (snd p) = 2" by arith
  with d show "distinct (map fst (snd p)) \<and> (length (snd p) = 1 \<or> length (snd p) = 2)" ..
qed

section \<open>The claims\<close>

text \<open>
  C1. The code does not keep the invariant. After a connection, the message
  \<open>{"type":"join","room":{"toString":1},"id":"x"}\<close> passes the test of line 154 and
  handleJoin stores a new room with no participant (line 169); the log line 170 then
  throws, because the room cannot be converted to a string, before any participant is
  added. The callback answers \<open>Invalid message format\<close>, the session variables of the
  connection stay unset, and the registry holds a room with zero participants. Whatever
  events follow, the room is still in the registry and still empty.
\<close>

theorem empty_room_retained:
  "rooms (world_after empty_room_trace) = [(unprintable_room, [])]
   \<and> snd (run empty_room_trace init_world) = [Send 0 (ErrorMsg ''Invalid message format'')]
   \<and> sessions (world_after empty_room_trace) 0 = no_session
   \<and> (\<forall>es. map_has unprintable_room (rooms (world_after (empty_room_trace @ es)))
          \<and> room_of (world_after (empty_room_trace @ es)) unprintable_room = []
          \<and> getRoomSize (world_after (empty_room_trace @ es)) unprintable_room = 0)"
proof -
  have a: "rooms (world_after empty_room_trace) = [(unprintable_room, [])]" by code_simp
  have b: "snd (run empty_room_trace init_world) = [Send 0 (ErrorMsg ''Invalid message format'')]"
    by code_simp
  have c: "sessions (world_after empty_room_trace) 0 = no_session" by code_simp
  have d: "map_has unprintable_room (rooms (world_after (empty_room_trace @ es)))
          \<and> room_of (world_after (empty_room_trace @ es)) unprintable_room = []
          \<and> getRoomSize (world_after (empty_room_trace @ es)) unprintable_room = 0" for es
  proof -
    have "abandoned unprintable_room (fst (run es (world_after empty_room_trace)))"
      using empty_room_abandoned by (rule run_abandoned)
    then have "abandoned unprintable_room (world_after (empty_room_trace @ es))"
      by (simp add: world_after_def run_append)
    then have "map_of (rooms (world_after (empty_room_trace @ es))) unprintable_room = Some []"
      by (simp add: abandoned_def)
    then show ?thesis by (simp add: map_has_iff room_of_def getRoomSize_def)
  qed
  from a b c d show ?thesis by blast
qed

text \<open>
  C2 (as amended). A \<open>join(room, id)\<close> for a room that holds two participants, neither
  of them \<open>id\<close>, is refused: the last message sent is the error
  \<open>Room is full. Maximum 2 participants allowed.\<close> to the sender, and the room's
  entries (ids and handles) are unchanged. If the sender has no current room, or its
  current room is the full room itself, the whole state is unchanged and the error is
  the only message. If the sender is in another room, the leave procedure for that room
  runs first (its \<open>peer-left\<close> notices precede the error) and the sender's session
  variables end cleared.
\<close>

theorem join_full_room_refused:
  assumes "reachable w" "is_join m room i"
      and "length (room_of w (skey room)) = 2" "\<not> map_has (skey i) (room_of w (skey room))"
  shows "snd (step (EvMessage h (Parsed m)) w) = snd (leave_first h (skey room) w) @ [Send h full_error]
     \<and> (\<forall>x\<in>set (snd (leave_first h (skey room) w)). \<exists>hh c. x = Send hh (PeerLeft c))
     \<and> room_of (fst (step (EvMessage h (Parsed m)) w)) (skey room) = room_of w (skey room)
     \<and> (currentRoom (sessions w h) = None \<or> currentRoom (sessions w h) = Some (skey room)
          \<longrightarrow> step (EvMessage h (Parsed m)) w = (w, [Send h full_error]))
     \<and> (\<forall>r0. currentRoom (sessions w h) = Some r0 \<and> r0 \<noteq> skey room
          \<longrightarrow> step (EvMessage h (Parsed m)) w
                = (fst (handleLeave h w), snd (handleLeave h w) @ [Send h full_error])
              \<and> sessions (fst (step (EvMessage h (Parsed m)) w)) h = no_session)"
proof -
  note eq = join_refused [OF assms(2,3,4), of h, folded step.simps]
  have ok: "session_ok (sessions w h)" using reachable_ok [OF assms(1)] by (simp add: world_ok_def)
  have a: "snd (step (EvMessage h (Parsed m)) w) = snd (leave_first h (skey room) w) @ [Send h full_error]"
    unfolding eq by simp
  have b: "\<forall>x\<in>set (snd (leave_first h (skey room) w)). \<exists>hh c. x = Send hh (PeerLeft c)"
    using leave_first_outputs by blast
  have c: "room_of (fst (step (EvMessage h (Parsed m)) w)) (skey room) = room_of w (skey room)"
    unfolding eq by (simp add: leave_first_room_of)
  have d: "currentRoom (sessions w h) = None \<or> currentRoom (sessions w h) = Some (skey room)
          \<longrightarrow> step (EvMessage h (Parsed m)) w = (w, [Send h full_error])"
    unfolding eq using leave_first_none [of w h "skey room"] by auto
  have e: "step (EvMessage h (Parsed m)) w
                = (fst (handleLeave h w), snd (handleLeave h w) @ [Send h full_error])
              \<and> sessions (fst (step (EvMessage h (Parsed m)) w)) h = no_session"
    if "currentRoom (sessions w h) = Some r0 \<and> r0 \<noteq> skey room" for r0
  proof -
    have "truthy_key r0" using ok that by (auto simp: session_ok_def split: option.splits)
    then have "leave_first h (skey room) w = handleLeave h w" using that by (simp add: leave_first_other)
    then show ?thesis unfolding eq using handleLeave_clears [OF ok] by simp
  qed
  from a b c d e show ?thesis by blast
qed

theorem join_full_room_refused_witness:
  "reachable full_world \<and> is_join (join_message ''room1'' ''zed'') ''room1'' ''zed''
   \<and> length (room_of full_world (skey ''room1'')) = 2 \<and> \<not> map_has (skey ''zed'') (room_of full_world (skey ''room1''))
   \<and> currentRoom (sessions full_world 2) = None
   \<and> step (EvMessage 2 (Parsed (join_message ''room1'' ''zed''))) full_world
       = (full_world, [Send 2 (ErrorMsg ''Room is full. Maximum 2 participants allowed.'')])
   \<and> reachable switch_world
   \<and> length (room_of switch_world (skey ''room1'')) = 2 \<and> \<not> map_has (skey ''zed'') (room_of switch_world (skey ''room1''))
   \<and> currentRoom (sessions switch_world 2) = Some (skey ''room2'') \<and> skey ''room2'' \<noteq> skey ''room1''
   \<and> sessions (fst (step (EvMessage 2 (Parsed (join_message ''room1'' ''zed''))) switch_world)) 2
       = no_session
   \<and> room_of (fst (step (EvMessage 2 (Parsed (join_message ''room1'' ''zed''))) switch_world)) (skey ''room1'')
       = room_of switch_world (skey ''room1'')"
proof -
  have r: "reachable full_world" unfolding reachable_def full_world_def by blast
  have j: "is_join (join_message ''room1'' ''zed'') ''room1'' ''zed''" by code_simp
  have l: "length (room_of full_world (skey ''room1'')) = 2" by code_simp
  have n: "\<not> map_has (skey ''zed'') (room_of full_world (skey ''room1''))" by code_simp
  have c: "currentRoom (sessions full_world 2) = None" by code_simp
  from join_full_room_refused [OF r j l n, of 2] c
  have t1: "step (EvMessage 2 (Parsed (join_message ''room1'' ''zed''))) full_world
       = (full_world, [Send 2 (ErrorMsg ''Room is full. Maximum 2 participants allowed.'')])"
    by (simp add: full_error_def)
  have r': "reachable switch_world" unfolding reachable_def switch_world_def by blast
  have l': "length (room_of switch_world (skey ''room1'')) = 2" by code_simp
  have n': "\<not> map_has (skey ''zed'') (room_of switch_world (skey ''room1''))" by code_simp
  have c': "currentRoom (sessions switch_world 2) = Some (skey ''room2'')" by code_simp
  have ne: "skey ''room2'' \<noteq> skey ''room1''" by simp
  from join_full_room_refused [OF r' j l' n', of 2] c' ne
  have t2: "sessions (fst (step (EvMessage 2 (Parsed (join_message ''room1'' ''zed''))) switch_world)) 2
       = no_session
     \<and> room_of (fst (step (EvMessage 2 (Parsed (join_message ''room1'' ''zed''))) switch_world)) (skey ''room1'')
       = room_of switch_world (skey ''room1'')" by blast
  from r j l n c t1 r' l' n' c' ne t2 show ?thesis by blast
qed

theorem join_full_room_counterexample:
  "length (room_of switch_world (skey ''room1'')) = 2
   \<and> \<not> map_has (skey ''zed'') (room_of switch_world (skey ''room1''))
   \<and> sessions switch_world 2 = join_session (skey ''room2'') (skey ''zed'')
   \<and> sessions (fst (step (EvMessage 2 (Parsed (join_message ''room1'' ''zed''))) switch_world)) 2
       = no_session
   \<and> sessions (fst (step (EvMessage 2 (Parsed (join_message ''room1'' ''zed''))) switch_world)) 2
       \<noteq> sessions switch_world 2"
  by code_simp




text \<open>
  C4 (as amended). Let connection \<open>h\<close> be authenticated in room \<open>r\<close> as \<open>a\<close>, and let the room
  hold exactly \<open>a\<close> and another participant \<open>b\<close>. An offer, answer or ice-candidate message
  from \<open>h\<close> whose required payload is truthy (present and not \<open>null\<close>, \<open>false\<close>, \<open>0\<close> or the
  empty string) changes nothing in the server's state, and the server sends exactly one
  message: the same payload, in a message of the same type with \<open>from = a\<close>, on the socket
  registered for \<open>b\<close>, provided that socket is open; if it is not open nothing is sent.
  Nothing is sent through the entry of \<open>a\<close>.
\<close>

theorem signaling_relayed_to_open_peer:
  assumes "reachable w" "sessions w h = join_session r a"
      and "room_holds w r (a, ha) (b, hb)"
      and "is_signaling m" "required_payload m = Some p" "truthy p"
  shows "step (EvMessage h (Parsed m)) w =
           (w, if readyState w hb = OPEN then [Send hb (relayed m p (Some (key_json a)))] else [])"
proof -
  have r: "truthy_key r" using reachable_session [OF assms(1,2)] by simp
  have s: "isAuthenticated (sessions w h)" "currentRoom (sessions w h) = Some r"
    "clientId (sessions w h) = Some a"
    using assms(2) by (simp_all add: join_session_def)
  show ?thesis
    unfolding signaling_relay [OF assms(4,5,6) s(1,2) r] s(3) others_open_two [OF assms(3)]
    by simp
qed

theorem signaling_relayed_to_open_peer_witness:
  "reachable paired_world \<and> sessions paired_world 0 = join_session (skey ''room1'') (skey ''alice'')
   \<and> room_holds paired_world (skey ''room1'') (skey ''alice'', 0) (skey ''bob'', 1)
   \<and> is_signaling (offer_message (JStr ''sdp''))
   \<and> required_payload (offer_message (JStr ''sdp'')) = Some (JStr ''sdp'')
   \<and> truthy (JStr ''sdp'')
   \<and> readyState paired_world 1 = OPEN
   \<and> step (EvMessage 0 (Parsed (offer_message (JStr ''sdp'')))) paired_world =
        (paired_world, [Send 1 (OfferMsg (JStr ''sdp'') (Some (JStr ''alice'')))])"
proof -
  have a: "sessions paired_world 0 = join_session (skey ''room1'') (skey ''alice'')" by code_simp
  have b: "room_holds paired_world (skey ''room1'') (skey ''alice'', 0) (skey ''bob'', 1)" by code_simp
  have c: "is_signaling (offer_message (JStr ''sdp''))" by code_simp
  have d: "required_payload (offer_message (JStr ''sdp'')) = Some (JStr ''sdp'')" by code_simp
  have e: "truthy (JStr ''sdp'')" by simp
  have f: "readyState paired_world 1 = OPEN" by code_simp
  have g: "relayed (offer_message (JStr ''sdp'')) (JStr ''sdp'') (Some (JStr ''alice''))
             = OfferMsg (JStr ''sdp'') (Some (JStr ''alice''))" by code_simp
  from signaling_relayed_to_open_peer [OF reachable_paired a b c d e] f g
  have "step (EvMessage 0 (Parsed (offer_message (JStr ''sdp'')))) paired_world =
        (paired_world, [Send 1 (OfferMsg (JStr ''sdp'') (Some (JStr ''alice'')))])" by simp
  with reachable_paired a b c d e f show ?thesis by blast
qed

theorem signaling_relay_counterexample:
  "room_holds paired_world (skey ''room1'') (skey ''alice'', 0) (skey ''bob'', 1)
   \<and> sessions paired_world 0 = join_session (skey ''room1'') (skey ''alice'')
   \<and> m_offer (offer_message (JStr '''')) = Some (JStr '''')
   \<and> snd (step (EvMessage 0 (Parsed (offer_message (JStr '''')))) paired_world) = []
   \<and> room_holds (fst (step (EvReadyState 1 CLOSING) paired_world)) (skey ''room1'') (skey ''alice'', 0) (skey ''bob'', 1)
   \<and> sessions (fst (step (EvReadyState 1 CLOSING) paired_world)) 0 = join_session (skey ''room1'') (skey ''alice'')
   \<and> snd (step (EvMessage 0 (Parsed (offer_message (JStr ''sdp''))))
            (fst (step (EvReadyState 1 CLOSING) paired_world))) = []"
  by code_simp

text \<open>
  C5 (as amended). The \<open>close\<close> and \<open>error\<close> callbacks run the leave procedure of an
  explicit leave message: an error has exactly the effect of a leave message; a close
  leaves the same registry and the same session variables, and sends the same messages
  except that nothing is sent on the closed socket itself. For a leave message, a close
  or an error of a connection \<open>h\<close>, in any reachable state: the session variables of \<open>h\<close>
  end cleared; if \<open>h\<close> is registered as \<open>a\<close> in a room that holds \<open>a\<close> and one other participant
  \<open>b\<close>, the room is left holding \<open>b\<close> alone and exactly one \<open>peer-left\<close> naming \<open>a\<close> is sent,
  on the socket of \<open>b\<close>, provided that socket is open (nothing is sent otherwise); if \<open>h\<close>
  is alone in its room, the room is removed from the registry and nothing is sent.
\<close>

theorem close_and_error_run_leave:
  assumes "reachable w"
  shows "step (EvError h) w = step (EvMessage h (Parsed leave_message)) w
     \<and> rooms (fst (step (EvClose h) w)) = rooms (fst (step (EvMessage h (Parsed leave_message)) w))
     \<and> sessions (fst (step (EvClose h) w))
         = sessions (fst (step (EvMessage h (Parsed leave_message)) w))
     \<and> snd (step (EvClose h) w)
         = filter (not_to h) (snd (step (EvMessage h (Parsed leave_message)) w))
     \<and> (\<forall>e\<in>set (leaving_events h).
          sessions (fst (step e w)) h = no_session
          \<and> (\<forall>r a b hb. in_room w h r a \<and> room_holds w r (a, h) (b, hb) \<longrightarrow>
                room_of (fst (step e w)) r = [(b, hb)]
                \<and> snd (step e w) =
                    (if readyState w hb = OPEN \<and> (e = EvClose h \<longrightarrow> hb \<noteq> h)
                     then [Send hb (PeerLeft (key_json a))] else []))
          \<and> (\<forall>r a. in_room w h r a \<and> room_of w r = [(a, h)] \<longrightarrow>
                \<not> map_has r (rooms (fst (step e w))) \<and> snd (step e w) = []))"
proof -
  have lm: "step (EvMessage h (Parsed leave_message)) w = handleLeave h w"
    by (simp add: dispatch_leave leave_message_def blank_message_def)
  have a: "step (EvError h) w = step (EvMessage h (Parsed leave_message)) w"
    unfolding lm by simp
  have b: "rooms (fst (step (EvClose h) w)) = rooms (fst (step (EvMessage h (Parsed leave_message)) w))
     \<and> sessions (fst (step (EvClose h) w))
         = sessions (fst (step (EvMessage h (Parsed leave_message)) w))
     \<and> snd (step (EvClose h) w)
         = filter (not_to h) (snd (step (EvMessage h (Parsed leave_message)) w))"
    unfolding lm using handleLeave_closed [of h w] by simp
  have c: "sessions (fst (step e w)) h = no_session
          \<and> (\<forall>r a b hb. in_room w h r a \<and> room_holds w r (a, h) (b, hb) \<longrightarrow>
                room_of (fst (step e w)) r = [(b, hb)]
                \<and> snd (step e w) =
                    (if readyState w hb = OPEN \<and> (e = EvClose h \<longrightarrow> hb \<noteq> h)
                     then [Send hb (PeerLeft (key_json a))] else []))
          \<and> (\<forall>r a. in_room w h r a \<and> room_of w r = [(a, h)] \<longrightarrow>
                \<not> map_has r (rooms (fst (step e w))) \<and> snd (step e w) = [])"
    if e: "e \<in> set (leaving_events h)" for e
  proof -
    let ?w0 = "if e = EvClose h then transport_closed h w else w"
    note st = leaving_step_world [OF e, of w]
    have s0: "sessions ?w0 = sessions w" by simp
    have r0: "room_of ?w0 r = room_of w r" for r by simp
    have ok: "session_ok (sessions ?w0 h)"
      using reachable_ok [OF assms] unfolding s0 by (simp add: world_ok_def)
    have c1: "sessions (fst (step e w)) h = no_session"
      unfolding st using handleLeave_clears [OF ok] .
    have c2: "room_of (fst (step e w)) r = [(b, hb)]
                \<and> snd (step e w) =
                    (if readyState w hb = OPEN \<and> (e = EvClose h \<longrightarrow> hb \<noteq> h)
                     then [Send hb (PeerLeft (key_json a))] else [])"
      if h2: "in_room w h r a \<and> room_holds w r (a, h) (b, hb)" for r a b hb
    proof -
      have s: "sessions ?w0 h = join_session r a" using h2 by (simp add: in_room_def)
      have ne: "truthy_key r" "truthy_key a"
        using reachable_session [OF assms, of h r a] h2 by (simp_all add: in_room_def)
      have rh: "room_holds ?w0 r (a, h) (b, hb)" using h2 by simp
      have rs: "readyState ?w0 hb = OPEN \<longleftrightarrow> readyState w hb = OPEN \<and> (e = EvClose h \<longrightarrow> hb \<noteq> h)"
        by (simp add: transport_closed_def)
      show ?thesis unfolding st using joined_pair_leave [OF s ne rh] rs by simp
    qed
    have c3: "\<not> map_has r (rooms (fst (step e w))) \<and> snd (step e w) = []"
      if h3: "in_room w h r a \<and> room_of w r = [(a, h)]" for r a
    proof -
      have s: "sessions ?w0 h = join_session r a" using h3 by (simp add: in_room_def)
      have ne: "truthy_key r" "truthy_key a"
        using reachable_session [OF assms, of h r a] h3 by (simp_all add: in_room_def)
      have ro: "room_of ?w0 r = [(a, h)]" using h3 by simp
      show ?thesis unfolding st using joined_alone_leave [OF s ne ro] .
    qed
    from c1 c2 c3 show ?thesis by blast
  qed
  from a b c show ?thesis by blast
qed

theorem close_and_error_run_leave_witness:
  "reachable paired_world \<and> EvClose 0 \<in> set (leaving_events 0)
   \<and> in_room paired_world 0 (skey ''room1'') (skey ''alice'')
   \<and> room_holds paired_world (skey ''room1'') (skey ''alice'', 0) (skey ''bob'', 1)
   \<and> readyState paired_world 1 = OPEN
   \<and> room_of (fst (step (EvClose 0) paired_world)) (skey ''room1'') = [(skey ''bob'', 1)]
   \<and> snd (step (EvClose 0) paired_world) = [Send 1 (PeerLeft (JStr ''alice''))]
   \<and> sessions (fst (step (EvClose 0) paired_world)) 0 = no_session
   \<and> reachable alone_world \<and> EvError 0 \<in> set (leaving_events 0)
   \<and> in_room alone_world 0 (skey ''room1'') (skey ''alice'')
   \<and> room_of alone_world (skey ''room1'') = [(skey ''alice'', 0)]
   \<and> \<not> map_has (skey ''room1'') (rooms (fst (step (EvError 0) alone_world)))"
proof -
  have r: "reachable alone_world" unfolding reachable_def alone_world_def by blast
  have e1: "EvClose 0 \<in> set (leaving_events 0)" by (simp add: leaving_events_def)
  have e2: "EvError 0 \<in> set (leaving_events 0)" by (simp add: leaving_events_def)
  have i1: "in_room paired_world 0 (skey ''room1'') (skey ''alice'')" by code_simp
  have h1: "room_holds paired_world (skey ''room1'') (skey ''alice'', 0) (skey ''bob'', 1)" by code_simp
  have o1: "readyState paired_world 1 = OPEN" by code_simp
  have i2: "in_room alone_world 0 (skey ''room1'') (skey ''alice'')" by code_simp
  have h2: "room_of alone_world (skey ''room1'') = [(skey ''alice'', 0)]" by code_simp
  have ne: "(1::nat) \<noteq> 0" by simp
  note t = close_and_error_run_leave [OF reachable_paired, of 0]
  from t e1 have u: "sessions (fst (step (EvClose 0) paired_world)) 0 = no_session
     \<and> (\<forall>r a b hb. in_room paired_world 0 r a \<and> room_holds paired_world r (a, 0) (b, hb) \<longrightarrow>
            room_of (fst (step (EvClose 0) paired_world)) r = [(b, hb)]
            \<and> snd (step (EvClose 0) paired_world) =
                (if readyState paired_world hb = OPEN \<and> (EvClose 0 = EvClose 0 \<longrightarrow> hb \<noteq> 0)
                 then [Send hb (PeerLeft (key_json a))] else []))"
    by blast
  from u i1 h1 have "room_of (fst (step (EvClose 0) paired_world)) (skey ''room1'') = [(skey ''bob'', 1)]
     \<and> snd (step (EvClose 0) paired_world) =
          (if readyState paired_world 1 = OPEN \<and> (EvClose 0 = EvClose 0 \<longrightarrow> (1::nat) \<noteq> 0)
           then [Send 1 (PeerLeft (key_json (skey ''alice'')))] else [])"
    by blast
  with u o1 have t1: "room_of (fst (step (EvClose 0) paired_world)) (skey ''room1'') = [(skey ''bob'', 1)]
   \<and> snd (step (EvClose 0) paired_world) = [Send 1 (PeerLeft (JStr ''alice''))]
   \<and> sessions (fst (step (EvClose 0) paired_world)) 0 = no_session"
    by simp
  from close_and_error_run_leave [OF r, of 0] e2 i2 h2
  have t2: "\<not> map_has (skey ''room1'') (rooms (fst (step (EvError 0) alone_world)))"
    by blast
  from reachable_paired r e1 e2 i1 h1 o1 i2 h2 t1 t2 show ?thesis by blast
qed

theorem close_leave_counterexample:
  "in_room closing_peer_world 0 (skey ''room1'') (skey ''alice'')
   \<and> room_holds closing_peer_world (skey ''room1'') (skey ''alice'', 0) (skey ''bob'', 1)
   \<and> room_of (fst (step (EvClose 0) closing_peer_world)) (skey ''room1'') = [(skey ''bob'', 1)]
   \<and> snd (step (EvClose 0) closing_peer_world) = []"
  by code_simp

text \<open>
  C6. A \<open>join(room, id)\<close> whose id is already registered in the room replaces the stored
  handle of that id by the sender's: the room's list of ids is the same (no entry is added,
  the order is kept), its size is the same, every other id keeps its handle, and sending
  the same join again changes nothing more.
\<close>

theorem rejoin_replaces_handle:
  assumes "is_join m room i" "map_has (skey i) (room_of w (skey room))"
  shows "room_of (fst (step (EvMessage h (Parsed m)) w)) (skey room) = map_set (skey i) h (room_of w (skey room))
     \<and> map fst (room_of (fst (step (EvMessage h (Parsed m)) w)) (skey room)) = map fst (room_of w (skey room))
     \<and> length (room_of (fst (step (EvMessage h (Parsed m)) w)) (skey room)) = length (room_of w (skey room))
     \<and> getRoomSize (fst (step (EvMessage h (Parsed m)) w)) (skey room) = getRoomSize w (skey room)
     \<and> map_of (room_of (fst (step (EvMessage h (Parsed m)) w)) (skey room)) (skey i) = Some h
     \<and> (\<forall>j. j \<noteq> skey i \<longrightarrow> map_of (room_of (fst (step (EvMessage h (Parsed m)) w)) (skey room)) j
                         = map_of (room_of w (skey room)) j)
     \<and> fst (step (EvMessage h (Parsed m)) (fst (step (EvMessage h (Parsed m)) w)))
         = fst (step (EvMessage h (Parsed m)) w)"
proof -
  have c: "length (room_of w (skey room)) < 2 \<or> map_has (skey i) (room_of w (skey room))" using assms(2) by simp
  note w = join_accepted_world [OF assms(1) c, of h]
  have sz: "getRoomSize v (skey room) = length (room_of v (skey room))" for v
    by (simp add: getRoomSize_def room_of_def split: option.splits)
  have k: "map fst (map_set (skey i) h (room_of w (skey room))) = map fst (room_of w (skey room))"
    using assms(2) by (rule map_set_keys_has)
  have l: "length (map_set (skey i) h (room_of w (skey room))) = length (room_of w (skey room))"
    using assms(2) by (simp add: length_map_set map_has_def)
  show ?thesis
    unfolding step.simps sz w(1) using k l join_accepted_twice [OF assms(1) c, of h]
    by (simp add: map_of_map_set)
qed

theorem rejoin_replaces_handle_witness:
  "is_join (join_message ''room1'' ''alice'') ''room1'' ''alice''
   \<and> map_has (skey ''alice'') (room_of full_world (skey ''room1''))
   \<and> room_of full_world (skey ''room1'') = [(skey ''alice'', 0), (skey ''bob'', 1)]
   \<and> room_of (fst (step (EvMessage 2 (Parsed (join_message ''room1'' ''alice''))) full_world)) (skey ''room1'')
        = [(skey ''alice'', 2), (skey ''bob'', 1)]"
proof -
  have j: "is_join (join_message ''room1'' ''alice'') ''room1'' ''alice''" by code_simp
  have hs: "map_has (skey ''alice'') (room_of full_world (skey ''room1''))" by code_simp
  have ro: "room_of full_world (skey ''room1'') = [(skey ''alice'', 0), (skey ''bob'', 1)]" by code_simp
  from rejoin_replaces_handle [OF j hs, of 2]
  have "room_of (fst (step (EvMessage 2 (Parsed (join_message ''room1'' ''alice''))) full_world)) (skey ''room1'')
        = map_set (skey ''alice'') 2 (room_of full_world (skey ''room1''))" by blast
  then have "room_of (fst (step (EvMessage 2 (Parsed (join_message ''room1'' ''alice''))) full_world)) (skey ''room1'')
        = [(skey ''alice'', 2), (skey ''bob'', 1)]" by (simp add: ro)
  with j hs ro show ?thesis by blast
qed

text \<open>
  C7. An offer, answer or ice-candidate message from a connection that is not authenticated
  or has no current room, or whose required payload field is missing, is dropped: the
  server sends nothing to anyone and its whole state (registry and every connection's
  session variables) is unchanged.
\<close>

theorem signaling_without_join_or_payload_dropped:
  assumes "is_signaling m"
      and "\<not> isAuthenticated (sessions w h) \<or> currentRoom (sessions w h) = None
           \<or> required_payload m = None"
  shows "step (EvMessage h (Parsed m)) w = (w, [])"
proof -
  consider (offer) "m_type m = Some (JStr ''offer'')" | (answer) "m_type m = Some (JStr ''answer'')"
    | (candidate) "m_type m = Some (JStr ''ice-candidate'')"
    using assms(1) unfolding is_signaling_def by blast
  then show ?thesis
  proof cases
    case offer
    then have "required_payload m = m_offer m" by (simp add: required_payload_def)
    with assms(2) offer show ?thesis by (simp add: dispatch_offer handleOffer_drop)
  next
    case answer
    then have "required_payload m = m_answer m" by (simp add: required_payload_def)
    with assms(2) answer show ?thesis by (simp add: dispatch_answer handleAnswer_drop)
  next
    case candidate
    then have "required_payload m = m_candidate m" by (simp add: required_payload_def)
    with assms(2) candidate show ?thesis by (simp add: dispatch_candidate handleIceCandidate_drop)
  qed
qed

theorem signaling_without_join_or_payload_dropped_witness:
  "is_signaling (offer_message (JStr ''sdp''))
   \<and> \<not> isAuthenticated (sessions init_world 0)
   \<and> step (EvMessage 0 (Parsed (offer_message (JStr ''sdp'')))) init_world = (init_world, [])
   \<and> is_signaling (blank_message\<lparr>m_type := Some (JStr ''answer'')\<rparr>)
   \<and> isAuthenticated (sessions paired_world 0)
   \<and> currentRoom (sessions paired_world 0) = Some (skey ''room1'')
   \<and> required_payload (blank_message\<lparr>m_type := Some (JStr ''answer'')\<rparr>) = None
   \<and> step (EvMessage 0 (Parsed (blank_message\<lparr>m_type := Some (JStr ''answer'')\<rparr>))) paired_world
       = (paired_world, [])"
proof -
  have a1: "is_signaling (offer_message (JStr ''sdp''))" by code_simp
  have a2: "\<not> isAuthenticated (sessions init_world 0)" by code_simp
  have b1: "is_signaling (blank_message\<lparr>m_type := Some (JStr ''answer'')\<rparr>)" by code_simp
  have b2: "required_payload (blank_message\<lparr>m_type := Some (JStr ''answer'')\<rparr>) = None" by code_simp
  have b3: "isAuthenticated (sessions paired_world 0)" by code_simp
  have b4: "currentRoom (sessions paired_world 0) = Some (skey ''room1'')" by code_simp
  from a2 have a2': "\<not> isAuthenticated (sessions init_world 0) \<or> currentRoom (sessions init_world 0) = None
           \<or> required_payload (offer_message (JStr ''sdp'')) = None" by blast
  from b2 have b2': "\<not> isAuthenticated (sessions paired_world 0) \<or> currentRoom (sessions paired_world 0) = None
           \<or> required_payload (blank_message\<lparr>m_type := Some (JStr ''answer'')\<rparr>) = None" by blast
  note c1 = signaling_without_join_or_payload_dropped [OF a1 a2']
  note c2 = signaling_without_join_or_payload_dropped [OF b1 b2']
  from a1 a2 c1 b1 b3 b4 b2 c2 show ?thesis by blast
qed

text \<open>
  C8 (as amended). A connection tracked in \<open>wss.clients\<close> whose \<open>isAlive\<close> flag is not set
  again by a pong is terminated by the heartbeat at the second tick at the latest: whatever
  other events happen between two consecutive ticks (none of them a pong or the close of
  this connection), \<open>terminate\<close> has been called on it once the second tick has run. The
  \<open>close\<close> event with which the transport answers runs the cleanup of an explicit leave:
  the registry and the session variables end as after a leave message, the connection's
  session is cleared and it is no longer tracked; if it was joined as \<open>a\<close> in room \<open>r\<close>,
  the entry of \<open>a\<close> is removed, the room is deleted exactly if no other entry remains, and
  \<open>peer-left\<close> naming \<open>a\<close> is sent to every other entry of the room whose socket is open.
  Nothing is stated about entries the connection registered earlier under other ids.
\<close>

theorem heartbeat_reaps_silent_connection:
  assumes "reachable w" "h \<in> set (clients w)" "\<forall>e\<in>set es. e \<noteq> EvPong h \<and> e \<noteq> EvClose h"
  shows "Terminate h \<in> set (snd (run (EvHeartbeat # es @ [EvHeartbeat]) w))
     \<and> (reachable w' \<longrightarrow>
          rooms (fst (step (EvClose h) w'))
            = rooms (fst (step (EvMessage h (Parsed leave_message)) w'))
          \<and> sessions (fst (step (EvClose h) w'))
            = sessions (fst (step (EvMessage h (Parsed leave_message)) w'))
          \<and> sessions (fst (step (EvClose h) w')) h = no_session
          \<and> h \<notin> set (clients (fst (step (EvClose h) w')))
          \<and> (\<forall>r a. sessions w' h = join_session r a \<longrightarrow>
                map_of (room_of (fst (step (EvClose h) w')) r) a = None
                \<and> (map_has r (rooms (fst (step (EvClose h) w')))
                     \<longleftrightarrow> map_delete a (room_of w' r) \<noteq> [])
                \<and> snd (step (EvClose h) w')
                     = map (\<lambda>p. Send (snd p) (PeerLeft (key_json a))) (peers_to_notify w' h r a)))"
proof -
  have lt: "h < nextHandle w"
    using reachable_ok [OF assms(1)] assms(2) by (simp add: world_ok_def)
  have a: "Terminate h \<in> set (snd (run (EvHeartbeat # es @ [EvHeartbeat]) w))"
    using assms(3,2) lt by (rule two_heartbeats_terminate)
  have b: "rooms (fst (step (EvClose h) w'))
            = rooms (fst (step (EvMessage h (Parsed leave_message)) w'))
          \<and> sessions (fst (step (EvClose h) w'))
            = sessions (fst (step (EvMessage h (Parsed leave_message)) w'))
          \<and> sessions (fst (step (EvClose h) w')) h = no_session
          \<and> h \<notin> set (clients (fst (step (EvClose h) w')))
          \<and> (\<forall>r a. sessions w' h = join_session r a \<longrightarrow>
                map_of (room_of (fst (step (EvClose h) w')) r) a = None
                \<and> (map_has r (rooms (fst (step (EvClose h) w')))
                     \<longleftrightarrow> map_delete a (room_of w' r) \<noteq> [])
                \<and> snd (step (EvClose h) w')
                     = map (\<lambda>p. Send (snd p) (PeerLeft (key_json a))) (peers_to_notify w' h r a))"
    if r: "reachable w'"
  proof -
    have lm: "step (EvMessage h (Parsed leave_message)) w' = handleLeave h w'"
      by (simp add: dispatch_leave leave_message_def blank_message_def)
    have ok: "session_ok (sessions (transport_closed h w') h)"
      using reachable_ok [OF r] by (simp add: world_ok_def)
    have b1: "rooms (fst (step (EvClose h) w'))
            = rooms (fst (step (EvMessage h (Parsed leave_message)) w'))
          \<and> sessions (fst (step (EvClose h) w'))
            = sessions (fst (step (EvMessage h (Parsed leave_message)) w'))"
      unfolding lm using handleLeave_closed [of h w'] by simp
    have b2: "sessions (fst (step (EvClose h) w')) h = no_session"
      using handleLeave_clears [OF ok] by simp
    have b3: "h \<notin> set (clients (fst (step (EvClose h) w')))"
      by (simp add: handleLeave_frame transport_closed_def)
    from b1 b2 b3 close_joined [OF r] show ?thesis by blast
  qed
  from a b show ?thesis by blast
qed

theorem heartbeat_reaps_silent_connection_witness:
  "reachable paired_world \<and> 0 \<in> set (clients paired_world)
   \<and> Terminate 0 \<in> set (snd (run (EvHeartbeat #
         [EvPong 1, EvMessage 1 (Parsed (offer_message (JStr ''sdp'')))] @ [EvHeartbeat]) paired_world))
   \<and> sessions paired_world 0 = join_session (skey ''room1'') (skey ''alice'')
   \<and> map_of (room_of (fst (step (EvClose 0) paired_world)) (skey ''room1'')) (skey ''alice'') = None
   \<and> snd (step (EvClose 0) paired_world) = [Send 1 (PeerLeft (JStr ''alice''))]
   \<and> sessions (fst (step (EvClose 0) paired_world)) 0 = no_session"
proof -
  have c: "0 \<in> set (clients paired_world)" by code_simp
  have q: "\<forall>e\<in>set [EvPong 1, EvMessage 1 (Parsed (offer_message (JStr ''sdp'')))].
         e \<noteq> EvPong 0 \<and> e \<noteq> EvClose 0" by simp
  have s: "sessions paired_world 0 = join_session (skey ''room1'') (skey ''alice'')" by code_simp
  have p: "map (\<lambda>p. Send (snd p) (PeerLeft (key_json (skey ''alice'')))) (peers_to_notify paired_world 0 (skey ''room1'') (skey ''alice''))
             = [Send 1 (PeerLeft (JStr ''alice''))]" by code_simp
  note t = heartbeat_reaps_silent_connection [OF reachable_paired c q, of paired_world]
  from t have t1: "Terminate 0 \<in> set (snd (run (EvHeartbeat #
         [EvPong 1, EvMessage 1 (Parsed (offer_message (JStr ''sdp'')))] @ [EvHeartbeat]) paired_world))"
    by blast
  from t reachable_paired s
  have t2: "map_of (room_of (fst (step (EvClose 0) paired_world)) (skey ''room1'')) (skey ''alice'') = None
     \<and> snd (step (EvClose 0) paired_world)
          = map (\<lambda>p. Send (snd p) (PeerLeft (key_json (skey ''alice'')))) (peers_to_notify paired_world 0 (skey ''room1'') (skey ''alice''))
     \<and> sessions (fst (step (EvClose 0) paired_world)) 0 = no_session"
    by blast
  from reachable_paired c s t1 t2 p show ?thesis by simp
qed

theorem heartbeat_reaps_counterexample:
  "Terminate 0 \<in> set (snd (run ghost_trace init_world))
   \<and> rooms ghost_world = [(skey ''room1'', [(skey ''alice'', 0)])]
   \<and> 0 \<notin> set (clients ghost_world)
   \<and> readyState ghost_world 0 = CLOSED
   \<and> sessions ghost_world 0 = no_session
   \<and> rooms (fst (run [EvHeartbeat, EvHeartbeat] ghost_world)) = [(skey ''room1'', [(skey ''alice'', 0)])]
   \<and> Terminate 0 \<in> set (snd (run unnotified_trace init_world))
   \<and> room_of (world_after unnotified_trace) (skey ''room1'') = [(skey ''alice'', 0), (skey ''bob'', 1)]
   \<and> room_of (fst (step (EvClose 0) (world_after unnotified_trace))) (skey ''room1'') = [(skey ''bob'', 1)]
   \<and> snd (step (EvClose 0) (world_after unnotified_trace)) = []"
  by code_simp

text \<open>
  C9. The offer handler does not read \<open>targetId\<close>: two offer messages that differ only in
  that field have the same effect, on the handler and on the whole message callback. When
  the offer is relayed it goes to every other entry of the sender's current room whose
  socket is open, whatever \<open>targetId\<close> names.
\<close>

theorem offer_ignores_targetId:
  assumes "m_type m = Some (JStr ''offer'')"
  shows "step (EvMessage h (Parsed (m\<lparr>m_targetId := t\<rparr>))) w = step (EvMessage h (Parsed m)) w
     \<and> handleOffer h (m\<lparr>m_targetId := t\<rparr>) w = handleOffer h m w
     \<and> (\<forall>r p. isAuthenticated (sessions w h) \<and> currentRoom (sessions w h) = Some r \<and> truthy_key r
            \<and> m_offer m = Some p \<and> truthy p \<longrightarrow>
          snd (step (EvMessage h (Parsed (m\<lparr>m_targetId := t\<rparr>))) w) =
            map (\<lambda>e. Send (snd e) (OfferMsg p (map_option key_json (clientId (sessions w h)))))
              (filter (\<lambda>e. Some (fst e) \<noteq> clientId (sessions w h) \<and> readyState w (snd e) = OPEN)
                 (room_of w r)))"
proof -
  have a: "handleOffer h (m\<lparr>m_targetId := t\<rparr>) w = handleOffer h m w"
    by (simp add: handleOffer_def)
  have b: "step (EvMessage h (Parsed (m\<lparr>m_targetId := t\<rparr>))) w = step (EvMessage h (Parsed m)) w"
    using assms a by (simp add: dispatch_offer)
  have c: "snd (step (EvMessage h (Parsed (m\<lparr>m_targetId := t\<rparr>))) w) =
            map (\<lambda>e. Send (snd e) (OfferMsg p (map_option key_json (clientId (sessions w h)))))
              (filter (\<lambda>e. Some (fst e) \<noteq> clientId (sessions w h) \<and> readyState w (snd e) = OPEN)
                 (room_of w r))"
    if "isAuthenticated (sessions w h) \<and> currentRoom (sessions w h) = Some r \<and> truthy_key r
            \<and> m_offer m = Some p \<and> truthy p" for r p
    using that assms unfolding b
    by (simp add: dispatch_offer handleOffer_relay others_open_def)
  from a b c show ?thesis by blast
qed

theorem offer_ignores_targetId_witness:
  "m_type (offer_message (JStr ''sdp'')) = Some (JStr ''offer'')
   \<and> isAuthenticated (sessions paired_world 0)
   \<and> currentRoom (sessions paired_world 0) = Some (skey ''room1'')
   \<and> m_offer (offer_message (JStr ''sdp'')) = Some (JStr ''sdp'')
   \<and> step (EvMessage 0 (Parsed ((offer_message (JStr ''sdp''))\<lparr>m_targetId := Some (JStr ''alice'')\<rparr>))) paired_world
       = step (EvMessage 0 (Parsed (offer_message (JStr ''sdp'')))) paired_world
   \<and> snd (step (EvMessage 0 (Parsed ((offer_message (JStr ''sdp''))\<lparr>m_targetId := Some (JStr ''alice'')\<rparr>))) paired_world)
       = [Send 1 (OfferMsg (JStr ''sdp'') (Some (JStr ''alice'')))]"
proof -
  have a: "m_type (offer_message (JStr ''sdp'')) = Some (JStr ''offer'')" by code_simp
  have b: "isAuthenticated (sessions paired_world 0)" by code_simp
  have c: "currentRoom (sessions paired_world 0) = Some (skey ''room1'')" by code_simp
  have d: "m_offer (offer_message (JStr ''sdp'')) = Some (JStr ''sdp'')" by code_simp
  have e: "truthy_key (skey ''room1'') \<and> truthy (JStr ''sdp'')" by simp
  have f: "map (\<lambda>e. Send (snd e) (OfferMsg (JStr ''sdp'') (map_option key_json (clientId (sessions paired_world 0)))))
             (filter (\<lambda>e. Some (fst e) \<noteq> clientId (sessions paired_world 0)
                           \<and> readyState paired_world (snd e) = OPEN)
                (room_of paired_world (skey ''room1'')))
           = [Send 1 (OfferMsg (JStr ''sdp'') (Some (JStr ''alice'')))]" by code_simp
  note t = offer_ignores_targetId [OF a, of 0 "Some (JStr ''alice'')" paired_world]
  from t have g: "step (EvMessage 0 (Parsed ((offer_message (JStr ''sdp''))\<lparr>m_targetId := Some (JStr ''alice'')\<rparr>))) paired_world
       = step (EvMessage 0 (Parsed (offer_message (JStr ''sdp'')))) paired_world" by blast
  from t b c d e
  have "snd (step (EvMessage 0 (Parsed ((offer_message (JStr ''sdp''))\<lparr>m_targetId := Some (JStr ''alice'')\<rparr>))) paired_world)
       = map (\<lambda>e. Send (snd e) (OfferMsg (JStr ''sdp'') (map_option key_json (clientId (sessions paired_world 0)))))
             (filter (\<lambda>e. Some (fst e) \<noteq> clientId (sessions paired_world 0)
                           \<and> readyState paired_world (snd e) = OPEN)
                (room_of paired_world (skey ''room1'')))" by blast
  then have h: "snd (step (EvMessage 0 (Parsed ((offer_message (JStr ''sdp''))\<lparr>m_targetId := Some (JStr ''alice'')\<rparr>))) paired_world)
       = [Send 1 (OfferMsg (JStr ''sdp'') (Some (JStr ''alice'')))]" unfolding f .
  from a b c d g h show ?thesis by blast
qed



end
